theory Spec2Isabelle
  imports Complex_Main "HOL-Library.Sublist"
begin

section \<open>Client: the chat transcript of the App component\<close>

text \<open>
  The browser application keeps its transcript in a React state cell \<open>messages\<close>, updated only
  through \<open>setMessages\<close> with updater functions. React applies queued updaters in the order
  they were enqueued, so a handler that enqueues several of them is the composition of the
  updaters. The non-deterministic reads of a handler (\<open>generateId()\<close>, \<open>Date.now()\<close>) are
  parameters of the model. Strings are lists of code units below 256.
\<close>

datatype chat_role = User | Assistant | System

datatype chat_status = Sending | Sent | Failed | Streaming

datatype chat_delivery = Reliable | Lossy

text \<open>\<open>interface ChatMessage\<close>: an optional field is an \<open>option\<close>.\<close>

record ChatMessage =
  id_m :: string
  role :: chat_role
  text_m :: string
  timestamp :: int
  senderId :: "string option"
  topic :: "string option"
  status :: "chat_status option"
  delivery :: "chat_delivery option"

datatype wire_role = RUser | RAi

text \<open>\<open>interface DataChannelMessage\<close>.\<close>

record DataChannelMessage =
  message :: string
  topic_d :: string
  role_d :: wire_role
  timestamp_d :: "int option"
  identity :: "string option"
  isFinal :: "bool option"
  interim :: "bool option"

text \<open>The part of the component state that the modelled handlers read or write.\<close>

record App =
  messages :: "ChatMessage list"
  isAssistantLoading :: bool
  error :: "string option"

subsection \<open>Decoding a data-channel payload\<close>

text \<open>
  A property value of the object that \<open>JSON.parse\<close> returned, as far as \<open>typeof\<close> tells
  values apart. \<open>TextDecoder\<close> and \<open>JSON.parse\<close> are library code, so a payload is given by
  what they make of it: \<open>Undecodable\<close> when \<open>decode\<close> throws; \<open>RawText txt\<close> when it decodes
  to \<open>txt\<close> and \<open>JSON.parse\<close> throws on it, or returns \<open>null\<close>, whose property read throws
  a TypeError into the same \<open>catch\<close>; \<open>JsonValue parsed\<close> for any other parse result, with
  \<open>parsed k\<close> the value of its property \<open>k\<close> (\<open>JUndefined\<close> when absent).
\<close>

datatype jsval = JUndefined | JNull | JBool bool | JNum int | JStr string | JObject

datatype payload = Undecodable | RawText string | JsonValue "string \<Rightarrow> jsval"

text \<open>The object without properties; \<open>obj(k := v)\<close> adds or overwrites property \<open>k\<close>.\<close>

definition emptyObject :: "string \<Rightarrow> jsval" where
  "emptyObject k = JUndefined"

definition typeof_string :: "jsval \<Rightarrow> string option" where
  "typeof_string v = (case v of JStr s \<Rightarrow> Some s | _ \<Rightarrow> None)"

definition typeof_number :: "jsval \<Rightarrow> int option" where
  "typeof_number v = (case v of JNum n \<Rightarrow> Some n | _ \<Rightarrow> None)"

definition typeof_boolean :: "jsval \<Rightarrow> bool option" where
  "typeof_boolean v = (case v of JBool b \<Rightarrow> Some b | _ \<Rightarrow> None)"

definition rawTextMessage :: "string \<Rightarrow> DataChannelMessage" where
  "rawTextMessage rawText =
     \<lparr>message = rawText, topic_d = ''chat'', role_d = RAi, timestamp_d = None,
      identity = None, isFinal = None, interim = None\<rparr>"

definition parseDataChannelMessage :: "payload \<Rightarrow> DataChannelMessage option" where
  "parseDataChannelMessage p =
     (case p of
        Undecodable \<Rightarrow> None
      | RawText rawText \<Rightarrow> Some (rawTextMessage rawText)
      | JsonValue parsed \<Rightarrow>
         (case typeof_string (parsed ''message'') of
            None \<Rightarrow> None
          | Some m \<Rightarrow>
              Some \<lparr>message = m,
                    topic_d = (case typeof_string (parsed ''topic'') of
                                 Some t \<Rightarrow> t | None \<Rightarrow> ''chat''),
                    role_d = (if parsed ''role'' = JStr ''user'' then RUser else RAi),
                    timestamp_d = typeof_number (parsed ''timestamp''),
                    identity = typeof_string (parsed ''identity''),
                    isFinal =
                      (case typeof_boolean (parsed ''is_final'') of
                         Some b \<Rightarrow> Some b
                       | None \<Rightarrow>
                           (case typeof_boolean (parsed ''isFinal'') of
                              Some b \<Rightarrow> Some b
                            | None \<Rightarrow> typeof_boolean (parsed ''final''))),
                    interim =
                      (case typeof_boolean (parsed ''interim'') of
                         Some b \<Rightarrow> Some b
                       | None \<Rightarrow> typeof_boolean (parsed ''partial''))\<rparr>))"

subsection \<open>Reconciling an inbound chat event with the transcript\<close>

text \<open>JavaScript truthiness of a string, and of an optional string.\<close>

definition truthy :: "string \<Rightarrow> bool" where
  "truthy s = (s \<noteq> [])"

definition truthy_opt :: "string option \<Rightarrow> bool" where
  "truthy_opt s = (case s of None \<Rightarrow> False | Some t \<Rightarrow> truthy t)"

definition hasExplicitInterim :: "DataChannelMessage \<Rightarrow> bool" where
  "hasExplicitInterim data = (interim data = Some True \<or> isFinal data = Some False)"

definition hasExplicitFinal :: "DataChannelMessage \<Rightarrow> bool" where
  "hasExplicitFinal data = (interim data = Some False \<or> isFinal data = Some True)"

definition hasExplicitFlag :: "DataChannelMessage \<Rightarrow> bool" where
  "hasExplicitFlag data = (hasExplicitInterim data \<or> hasExplicitFinal data)"

definition incomingMessage ::
  "string \<Rightarrow> chat_role \<Rightarrow> DataChannelMessage \<Rightarrow> int \<Rightarrow> string \<Rightarrow> string \<Rightarrow> chat_delivery
    \<Rightarrow> ChatMessage" where
  "incomingMessage newId r data lastMessageTimestamp sid messageTopic dlv =
     \<lparr>id_m = newId, role = r, text_m = message data, timestamp = lastMessageTimestamp,
      senderId = Some sid, topic = Some messageTopic,
      status = Some (if hasExplicitInterim data then Streaming else Sent),
      delivery = Some dlv\<rparr>"

text \<open>
  \<open>{...lastMessage, ...incomingMessage}\<close>: the candidate is an object literal with all
  eight keys, and the spread copies every own key of its operand over the first one's.
\<close>

definition spread :: "ChatMessage \<Rightarrow> ChatMessage \<Rightarrow> ChatMessage" where
  "spread a b =
     a\<lparr>id_m := id_m b, role := role b, text_m := text_m b, timestamp := timestamp b,
       senderId := senderId b, topic := topic b, status := status b, delivery := delivery b\<rparr>"

text \<open>The updater passed to \<open>setMessages\<close> in the chat branch of \<open>handleDataReceived\<close>.\<close>

definition reconcile ::
  "DataChannelMessage \<Rightarrow> chat_role \<Rightarrow> string \<Rightarrow> string \<Rightarrow> ChatMessage \<Rightarrow> ChatMessage list
    \<Rightarrow> ChatMessage list" where
  "reconcile data r sid messageTopic incoming prev =
     (if length prev = 0 then [incoming]
      else
        let lastIndex = length prev - 1;
            lastMessage = prev ! lastIndex;
            sameSender =
              (if truthy sid \<and> truthy_opt (senderId lastMessage)
               then Some sid = senderId lastMessage
               else role lastMessage = r);
            sameTopic = (topic lastMessage = Some messageTopic);
            isTextContinuation =
              (truthy (text_m lastMessage) \<and>
               (prefix (text_m lastMessage) (message data) \<or>
                prefix (message data) (text_m lastMessage)));
            shouldTreatAsInterim =
              (hasExplicitInterim data \<or>
               (\<not> hasExplicitFlag data \<and> r = User \<and> sameSender \<and> sameTopic \<and>
                isTextContinuation));
            shouldFinalizeStreaming =
              (hasExplicitFinal data \<or>
               (\<not> hasExplicitFlag data \<and> status lastMessage = Some Streaming \<and>
                message data = text_m lastMessage))
        in
          if sameSender \<and> sameTopic then
            if shouldTreatAsInterim then
              prev[lastIndex := (spread lastMessage incoming)\<lparr>status := Some Streaming\<rparr>]
            else if shouldFinalizeStreaming \<and> status lastMessage = Some Streaming then
              prev[lastIndex := (spread lastMessage incoming)\<lparr>status := Some Sent\<rparr>]
            else prev @ [incoming]
          else prev @ [incoming])"

text \<open>
  The conditions the updater computes on the last entry, each under its name in the source,
  as functions of what they read: the resolved sender \<open>sid\<close>, the role \<open>r\<close> and the topic of
  the event, its payload, and the last entry.
\<close>

definition sameSender :: "string \<Rightarrow> chat_role \<Rightarrow> ChatMessage \<Rightarrow> bool" where
  "sameSender sid r lastMessage =
     (if truthy sid \<and> truthy_opt (senderId lastMessage)
      then Some sid = senderId lastMessage
      else role lastMessage = r)"

definition sameTopic :: "string \<Rightarrow> ChatMessage \<Rightarrow> bool" where
  "sameTopic messageTopic lastMessage = (topic lastMessage = Some messageTopic)"

definition isTextContinuation :: "DataChannelMessage \<Rightarrow> ChatMessage \<Rightarrow> bool" where
  "isTextContinuation data lastMessage =
     (truthy (text_m lastMessage) \<and>
      (prefix (text_m lastMessage) (message data) \<or>
       prefix (message data) (text_m lastMessage)))"

definition shouldTreatAsInterim ::
  "DataChannelMessage \<Rightarrow> chat_role \<Rightarrow> string \<Rightarrow> string \<Rightarrow> ChatMessage \<Rightarrow> bool" where
  "shouldTreatAsInterim data r sid messageTopic lastMessage =
     (hasExplicitInterim data \<or>
      (\<not> hasExplicitFlag data \<and> r = User \<and> sameSender sid r lastMessage \<and>
       sameTopic messageTopic lastMessage \<and> isTextContinuation data lastMessage))"

definition shouldFinalizeStreaming :: "DataChannelMessage \<Rightarrow> ChatMessage \<Rightarrow> bool" where
  "shouldFinalizeStreaming data lastMessage =
     (hasExplicitFinal data \<or>
      (\<not> hasExplicitFlag data \<and> status lastMessage = Some Streaming \<and>
       message data = text_m lastMessage))"

text \<open>\<open>addMessage\<close>: the appended object has no \<open>topic\<close>, \<open>status\<close> or \<open>delivery\<close> key.\<close>

definition addMessage ::
  "string \<Rightarrow> int \<Rightarrow> chat_role \<Rightarrow> string \<Rightarrow> string option \<Rightarrow> App \<Rightarrow> App" where
  "addMessage newId now r txt sid s =
     s\<lparr>messages := messages s @
         [\<lparr>id_m = newId, role = r, text_m = txt, timestamp = now, senderId = sid,
           topic = None, status = None, delivery = None\<rparr>]\<rparr>"

datatype DataPacket_Kind = RELIABLE | LOSSY

definition wire_role_string :: "wire_role \<Rightarrow> string" where
  "wire_role_string r = (case r of RUser \<Rightarrow> ''user'' | RAi \<Rightarrow> ''ai'')"

text \<open>
  The values a handler call computes before it branches on the topic: the topic argument of
  the transport wins over the payload's, the participant's identity over the payload's
  \<open>identity\<close> over its \<open>role\<close> (\<open>??\<close> tests for \<open>undefined\<close> only).
\<close>

definition messageTopic_of :: "string option \<Rightarrow> DataChannelMessage \<Rightarrow> string" where
  "messageTopic_of tp data = (case tp of Some t \<Rightarrow> t | None \<Rightarrow> topic_d data)"

definition role_of :: "DataChannelMessage \<Rightarrow> chat_role" where
  "role_of data = (if role_d data = RUser then User else Assistant)"

definition senderId_of :: "string option \<Rightarrow> DataChannelMessage \<Rightarrow> string" where
  "senderId_of participant data =
     (case participant of
        Some i \<Rightarrow> i
      | None \<Rightarrow> (case identity data of Some i \<Rightarrow> i | None \<Rightarrow> wire_role_string (role_d data)))"

definition delivery_of :: "DataPacket_Kind option \<Rightarrow> chat_delivery" where
  "delivery_of kind = (if kind = Some LOSSY then Lossy else Reliable)"

definition candidate ::
  "string \<Rightarrow> int \<Rightarrow> DataChannelMessage \<Rightarrow> string option \<Rightarrow> DataPacket_Kind option
    \<Rightarrow> string option \<Rightarrow> ChatMessage" where
  "candidate newId now data participant kind tp =
     incomingMessage newId (role_of data) data
       (case timestamp_d data of Some t \<Rightarrow> t | None \<Rightarrow> now)
       (senderId_of participant data) (messageTopic_of tp data) (delivery_of kind)"

text \<open>The body of \<open>handleDataReceived\<close> once the payload has been parsed.\<close>

definition receive ::
  "string \<Rightarrow> int \<Rightarrow> DataChannelMessage \<Rightarrow> string option \<Rightarrow> DataPacket_Kind option
    \<Rightarrow> string option \<Rightarrow> App \<Rightarrow> App" where
  "receive newId now data participant kind tp s =
     (if messageTopic_of tp data = ''chat'' then
        s\<lparr>messages :=
            reconcile data (role_of data) (senderId_of participant data)
              (messageTopic_of tp data) (candidate newId now data participant kind tp)
              (messages s),
          isAssistantLoading :=
            (if role_of data = Assistant then False else isAssistantLoading s)\<rparr>
      else if messageTopic_of tp data = ''status'' then
        addMessage newId now System (''Status: '' @ message data) None s
      else s)"

definition handleDataReceived ::
  "string \<Rightarrow> int \<Rightarrow> payload \<Rightarrow> string option \<Rightarrow> DataPacket_Kind option \<Rightarrow> string option
    \<Rightarrow> App \<Rightarrow> App" where
  "handleDataReceived newId now p participant kind tp s =
     (case parseDataChannelMessage p of
        None \<Rightarrow> s
      | Some data \<Rightarrow> receive newId now data participant kind tp s)"

subsection \<open>Sending\<close>

definition updateMessageStatus :: "string \<Rightarrow> chat_status option \<Rightarrow> App \<Rightarrow> App" where
  "updateMessageStatus messageId st s =
     s\<lparr>messages := map (\<lambda>msg. if id_m msg = messageId then msg\<lparr>status := st\<rparr> else msg)
                      (messages s)\<rparr>"

definition outgoingMessage ::
  "string \<Rightarrow> int \<Rightarrow> string \<Rightarrow> string \<Rightarrow> chat_status \<Rightarrow> ChatMessage" where
  "outgoingMessage mid now txt participantIdentity st =
     \<lparr>id_m = mid, role = User, text_m = txt, timestamp = now,
      senderId = Some (if truthy participantIdentity then participantIdentity else ''user''),
      topic = Some ''chat'', status = Some st, delivery = None\<rparr>"

text \<open>
  \<open>handleSendMessage(text, retryMessageId?)\<close>. \<open>room\<close> tells whether
  \<open>clientRef.current?.currentRoom\<close> is there, \<open>syncThrows\<close> whether encoding or the call of
  \<open>publishData\<close> throws synchronously. The result is the state when the handler returns and
  the publish it has started, if any: the message id its promise will settle and the payload.
  \<open>if (retryMessageId)\<close> is a truthiness test, so an empty id counts as none there, while
  \<open>retryMessageId ?? generateId()\<close> keeps it.
\<close>

definition handleSendMessage ::
  "bool \<Rightarrow> bool \<Rightarrow> string \<Rightarrow> string \<Rightarrow> int \<Rightarrow> string \<Rightarrow> string option \<Rightarrow> App
    \<Rightarrow> App \<times> (string \<times> DataChannelMessage) option" where
  "handleSendMessage room syncThrows participantIdentity newId now txt retryMessageId s =
     (let retry = (case retryMessageId of
                     None \<Rightarrow> None
                   | Some r \<Rightarrow> if truthy r then Some r else None);
          s1 = (case retry of
                  Some r \<Rightarrow> updateMessageStatus r (Some Sending) s
                | None \<Rightarrow> s)
      in
        if \<not> room then
          ((case retry of
              None \<Rightarrow>
                s1\<lparr>messages := messages s1 @
                     [outgoingMessage newId now txt participantIdentity Failed]\<rparr>
            | Some r \<Rightarrow> updateMessageStatus r (Some Failed) s1)
             \<lparr>error := Some ''Not connected to room. Cannot send message.''\<rparr>,
           None)
        else
          let messageId = (case retryMessageId of Some r \<Rightarrow> r | None \<Rightarrow> newId);
              s2 = (case retry of
                      None \<Rightarrow>
                        s1\<lparr>messages := messages s1 @
                             [outgoingMessage messageId now txt participantIdentity Sending]\<rparr>
                    | Some r \<Rightarrow> s1);
              wire = \<lparr>message = txt, topic_d = ''chat'', role_d = RUser,
                      timestamp_d = Some now, identity = None, isFinal = None,
                      interim = None\<rparr>
          in
            if syncThrows then
              ((updateMessageStatus messageId (Some Failed) s2)
                 \<lparr>error := Some ''Failed to send message. Click to retry.''\<rparr>,
               None)
            else (s2, Some (messageId, wire)))"

text \<open>The promise of \<open>publishData\<close> settles: \<open>.then\<close> when acknowledged, \<open>.catch\<close> otherwise.\<close>

definition publishSettled :: "bool \<Rightarrow> string \<Rightarrow> App \<Rightarrow> App" where
  "publishSettled acknowledged messageId s =
     (if acknowledged then (updateMessageStatus messageId (Some Sent) s)\<lparr>isAssistantLoading := True\<rparr>
      else (updateMessageStatus messageId (Some Failed) s)
             \<lparr>error := Some ''Failed to send message. Click to retry.''\<rparr>)"

section \<open>Server: the AiService\<close>

text \<open>
  The service owns the per-room history map; everything else a call touches is outside it:
  the language model, \<open>Math.random\<close>, the clock, the timer and the caller's sentence
  callback. A call is modelled as a function of the history and of what the outside gives
  (the behaviour of the model at each invocation, the value \<open>Math.random()\<close> returns, the
  clock reading), and its result records what it did to the outside, in order. The callback
  is an observer that returns normally: it is the list of the strings it was called with.
  Logging is left out.
\<close>

subsection \<open>Strings\<close>

text \<open>
  The white space and line terminators of ECMAScript among the code units below 256, which is
  what both \<open>\s\<close> in a regular expression and \<open>String.prototype.trim\<close> remove.
\<close>

definition isWhiteSpace :: "char \<Rightarrow> bool" where
  "isWhiteSpace c =
     (c \<in> set [CHR 0x09, CHR 0x0A, CHR 0x0B, CHR 0x0C, CHR 0x0D, CHR '' '', CHR 0xA0])"

definition trim :: "string \<Rightarrow> string" where
  "trim s = rev (dropWhile isWhiteSpace (rev (dropWhile isWhiteSpace s)))"

text \<open>\<open>s.includes(sub)\<close>.\<close>

fun includes_str :: "string \<Rightarrow> string \<Rightarrow> bool" where
  "includes_str [] sub = (sub = [])"
| "includes_str (c # cs) sub = (prefix sub (c # cs) \<or> includes_str cs sub)"

text \<open>\<open>s.slice(a, b)\<close> for \<open>0 \<le> a\<close> and \<open>0 \<le> b\<close>.\<close>

definition slice :: "string \<Rightarrow> nat \<Rightarrow> nat \<Rightarrow> string" where
  "slice s a b = take (b - a) (drop a s)"

subsection \<open>Fallback lines\<close>

definition FALLBACK_RESPONSES :: "string list" where
  "FALLBACK_RESPONSES =
     [''I'm having trouble understanding. Could you try again?'',
      ''I couldn't process that. Could you rephrase?'',
      ''Something went wrong on my end. Please try again.'']"

text \<open>
  A value of \<open>Math.random()\<close>: a number \<open>r\<close> with \<open>0 \<le> r < 1\<close>. The product and
  \<open>Math.floor\<close> are taken over the reals.
\<close>

typedef random_value = "{r :: real. 0 \<le> r \<and> r < 1}"
  by (rule exI[of _ 0]) simp

definition getRandomFallbackResponse :: "random_value \<Rightarrow> string" where
  "getRandomFallbackResponse rnd =
     (let index = nat \<lfloor>Rep_random_value rnd * real (length FALLBACK_RESPONSES)\<rfloor>
      in FALLBACK_RESPONSES ! index)"

subsection \<open>Conversation history\<close>

datatype conv_role = CUser | CAssistant

record ConversationMessage =
  role_c :: conv_role
  content :: string
  timestamp_c :: int

record SessionHistory =
  messages_h :: "ConversationMessage list"
  createdAt :: int
  lastUpdated :: int

type_synonym history = "string \<rightharpoonup> SessionHistory"

definition maxHistoryMessages :: nat where
  "maxHistoryMessages = 20"

definition defaultMaxTokens :: int where
  "defaultMaxTokens = 500"

text \<open>
  \<open>addToHistory\<close>. \<open>messages.slice(-maxHistoryMessages / 2)\<close> keeps the last
  \<open>maxHistoryMessages / 2\<close> elements, all of them when there are fewer.
\<close>

definition addToHistory :: "int \<Rightarrow> string \<Rightarrow> conv_role \<Rightarrow> string \<Rightarrow> history \<Rightarrow> history" where
  "addToHistory now room r c h =
     (let session = (case h room of
                       None \<Rightarrow> \<lparr>messages_h = [], createdAt = now, lastUpdated = now\<rparr>
                     | Some existing \<Rightarrow> existing);
          pushed = messages_h session @ [\<lparr>role_c = r, content = c, timestamp_c = now\<rparr>];
          kept = (if length pushed > maxHistoryMessages
                  then drop (length pushed - maxHistoryMessages div 2) pushed
                  else pushed)
      in h(room \<mapsto> session\<lparr>messages_h := kept, lastUpdated := now\<rparr>))"

definition getHistory :: "history \<Rightarrow> string \<Rightarrow> ConversationMessage list" where
  "getHistory h room = (case h room of Some session \<Rightarrow> messages_h session | None \<Rightarrow> [])"

definition clearHistory :: "string \<Rightarrow> history \<Rightarrow> history" where
  "clearHistory room h = h(room := None)"

text \<open>
  A sequence of \<open>addToHistory\<close> calls (room, role, content, clock reading), and the messages
  such a sequence appends to one room, in order.
\<close>

fun appendAll :: "(string \<times> conv_role \<times> string \<times> int) list \<Rightarrow> history \<Rightarrow> history" where
  "appendAll [] h = h"
| "appendAll ((room, r, c, now) # ops) h = appendAll ops (addToHistory now room r c h)"

fun appendedTo :: "string \<Rightarrow> (string \<times> conv_role \<times> string \<times> int) list \<Rightarrow> ConversationMessage list" where
  "appendedTo room [] = []"
| "appendedTo room ((room', r, c, now) # ops) =
     (if room' = room then \<lparr>role_c = r, content = c, timestamp_c = now\<rparr> # appendedTo room ops
      else appendedTo room ops)"

subsection \<open>Requests to the model\<close>

datatype prompt_role = PSystem | PUser | PAssistant

type_synonym prompt = "prompt_role \<times> string"

definition VOICE_ASSISTANT_PROMPT :: string where
  "VOICE_ASSISTANT_PROMPT =
     ''You are a helpful voice assistant.\<newline>\<newline>BEHAVIOR:\<newline>- Be concise - responses will be spoken aloud\<newline>- Be conversational and friendly\<newline>- Ask clarifying questions when needed\<newline>- Acknowledge the user's input before responding\<newline>\<newline>FORMAT:\<newline>- Keep responses under 2-3 sentences when possible\<newline>- Avoid lists and bullet points (hard to speak)\<newline>- Use natural speech patterns\<newline>- Don't use markdown formatting\<newline>\<newline>CONTEXT:\<newline>- You are speaking with users in a voice chat room\<newline>- The user's speech has been transcribed, so there may be minor transcription errors\<newline>- If you don't understand something, ask for clarification\<newline>\<newline>LIMITATIONS:\<newline>- Do not access external websites or databases\<newline>- Do not execute code or run commands\<newline>- If you cannot help with something, say so politely''"

definition prompt_role_of :: "conv_role \<Rightarrow> prompt_role" where
  "prompt_role_of r = (case r of CUser \<Rightarrow> PUser | CAssistant \<Rightarrow> PAssistant)"

definition buildMessages :: "string option \<Rightarrow> string \<Rightarrow> history \<Rightarrow> prompt list" where
  "buildMessages room_name said h =
     [(PSystem, VOICE_ASSISTANT_PROMPT)] @
     (case room_name of
        None \<Rightarrow> []
      | Some room \<Rightarrow>
          if truthy room then
            (case h room of
               None \<Rightarrow> []
             | Some session \<Rightarrow> map (\<lambda>msg. (prompt_role_of (role_c msg), content msg)) (messages_h session))
          else []) @
     [(PUser, said)]"

subsection \<open>Sentence extraction\<close>

definition isTerminator :: "char \<Rightarrow> bool" where
  "isTerminator c = (c = CHR ''.'' \<or> c = CHR ''!'' \<or> c = CHR ''?'')"

text \<open>
  One \<open>exec\<close> of the global regular expression \<open>/([.!?])(?:\s+|$)/g\<close>. The second argument
  is the part of the buffer from \<open>lastIndex\<close> on, the first the index in the buffer of its
  first character; the result is \<open>(match.index, match[0].length)\<close> of the leftmost match,
  which takes the terminator and, greedily, the white space after it, or \<open>None\<close> for
  \<open>null\<close>. A terminator matches when white space follows or the buffer ends there.
\<close>

fun sentenceEnd_exec :: "nat \<Rightarrow> string \<Rightarrow> (nat \<times> nat) option" where
  "sentenceEnd_exec i [] = None"
| "sentenceEnd_exec i (c # cs) =
     (if isTerminator c \<and> (case cs of [] \<Rightarrow> True | d # _ \<Rightarrow> isWhiteSpace d)
      then Some (i, 1 + length (takeWhile isWhiteSpace cs))
      else sentenceEnd_exec (Suc i) cs)"

text \<open>
  The \<open>while\<close> loop of \<open>extractCompleteSentences\<close>; the regular expression's own
  \<open>lastIndex\<close> is, after every match, the \<open>endPos\<close> that the loop stores in its variable
  \<open>lastIndex\<close>.
\<close>

function extract_loop :: "string \<Rightarrow> nat \<Rightarrow> string list \<Rightarrow> string list \<times> string" where
  "extract_loop buffer lastIndex sentences =
     (case sentenceEnd_exec lastIndex (drop lastIndex buffer) of
        None \<Rightarrow> (sentences, drop lastIndex buffer)
      | Some (index, len) \<Rightarrow>
          extract_loop buffer (index + len)
            (if truthy (trim (slice buffer lastIndex (index + len)))
             then sentences @ [trim (slice buffer lastIndex (index + len))]
             else sentences))"
  by pat_completeness auto
termination
proof (relation "measure (\<lambda>(buffer, lastIndex, sentences). length buffer - lastIndex)")
  show "wf (measure (\<lambda>(buffer, lastIndex, sentences). length buffer - lastIndex))"
    by simp
next
  fix buffer :: string and lastIndex :: nat and sentences :: "string list"
    and x2 :: "nat \<times> nat" and index len :: nat
  assume found: "sentenceEnd_exec lastIndex (drop lastIndex buffer) = Some x2"
    and x2: "(index, len) = x2"
  have later: "i \<le> j \<and> 0 < l \<and> s \<noteq> []"
    if "sentenceEnd_exec i s = Some (j, l)" for i j l s
    using that
  proof (induction s arbitrary: i)
    case Nil
    then show ?case by simp
  next
    case (Cons c cs)
    then show ?case
      by (fastforce split: if_splits)
  qed
  from later[of lastIndex "drop lastIndex buffer" index len] found x2
  have "lastIndex < index + len" and "lastIndex < length buffer"
    by auto
  then show "((buffer, index + len,
          if truthy (trim (slice buffer lastIndex (index + len)))
          then sentences @ [trim (slice buffer lastIndex (index + len))] else sentences),
        buffer, lastIndex, sentences)
      \<in> measure (\<lambda>(buffer, lastIndex, sentences). length buffer - lastIndex)"
    by simp
qed

definition extractCompleteSentences :: "string \<Rightarrow> string list \<times> string" where
  "extractCompleteSentences buffer = extract_loop buffer 0 []"

subsection \<open>Generation\<close>

text \<open>
  What a \<open>catch\<close> receives: an \<open>Error\<close> with its message, or some other value. What the
  model does on one \<open>streamText\<close> request: the chunks its \<open>textStream\<close> yields, and then
  the stream ends, or the iteration throws, or awaiting \<open>finishReason\<close> or \<open>usage\<close> throws.
  What it does on one \<open>generateText\<close> request: it throws, or returns a text and a usage.
\<close>

datatype thrown = JsError string | NonError

datatype stream_end = StreamEnds | IterationThrows thrown | FinishThrows thrown

datatype text_stream = TextStream (chunks: "string list") (ending: stream_end)

datatype generated = Generated (text_r: string) (usage_r: "(int option \<times> int option) option")

datatype GenerateResult = GenerateResult (text_g: string) (usage_g: "(int \<times> int) option")

datatype AiGenerationError =
  AiGenerationError (message_e: string) (cause: thrown) (isRetryable: bool)

record GenerateOptions =
  transcript :: string
  roomName :: "string option"
  maxTokens :: "int option"

text \<open>
  The result of a call: what it returned or threw, the strings it passed to the sentence
  callback, the message lists it sent to the model, the delays it waited for (milliseconds),
  and the history when it ended.
\<close>

datatype 'a run =
  Run (returned: 'a) (sentences: "string list") (requests: "prompt list list")
    (slept: "int list") (store: history)

definition isRetryableError :: "thrown \<Rightarrow> bool" where
  "isRetryableError e =
     (case e of
        JsError msg \<Rightarrow>
          if includes_str msg ''rate limit'' then False
          else if includes_str msg ''ECONNREFUSED'' \<or> includes_str msg ''timeout'' then True
          else True
      | NonError \<Rightarrow> True)"

text \<open>The \<open>for await\<close> loop over the chunks: full response, sentence buffer, emitted sentences.\<close>

fun stream_loop ::
  "string list \<Rightarrow> string \<Rightarrow> string \<Rightarrow> string list \<Rightarrow> string \<times> string \<times> string list" where
  "stream_loop [] fullResponse sentenceBuffer emitted = (fullResponse, sentenceBuffer, emitted)"
| "stream_loop (chunk # rest) fullResponse sentenceBuffer emitted =
     (case extractCompleteSentences (sentenceBuffer @ chunk) of
        (extracted, remaining) \<Rightarrow>
          if length extracted > 0
          then stream_loop rest (fullResponse @ chunk) remaining (emitted @ extracted)
          else stream_loop rest (fullResponse @ chunk) (sentenceBuffer @ chunk) emitted)"

definition saveExchange :: "int \<Rightarrow> string option \<Rightarrow> string \<Rightarrow> string \<Rightarrow> history \<Rightarrow> history" where
  "saveExchange now room_name said response h =
     (case room_name of
        None \<Rightarrow> h
      | Some room \<Rightarrow>
          if truthy room
          then addToHistory now room CAssistant response (addToHistory now room CUser said h)
          else h)"

definition generateStreamingResponse ::
  "(prompt list \<Rightarrow> text_stream) \<Rightarrow> random_value \<Rightarrow> int \<Rightarrow> GenerateOptions \<Rightarrow> history
    \<Rightarrow> (AiGenerationError + string) run" where
  "generateStreamingResponse streamText rnd now options h =
     (if \<not> truthy (trim (transcript options)) then
        Run (Inr (getRandomFallbackResponse rnd)) [getRandomFallbackResponse rnd] [] [] h
      else
        let msgs = buildMessages (roomName options) (transcript options) h;
            result = streamText msgs
        in
          case stream_loop (chunks result) [] [] [] of
            (fullResponse, sentenceBuffer, emitted) \<Rightarrow>
              (case ending result of
                 IterationThrows e \<Rightarrow>
                   Run (Inl (AiGenerationError ''Failed to generate streaming response'' e
                               (isRetryableError e)))
                     emitted [msgs] [] h
               | FinishThrows e \<Rightarrow>
                   Run (Inl (AiGenerationError ''Failed to generate streaming response'' e
                               (isRetryableError e)))
                     emitted [msgs] [] h
               | StreamEnds \<Rightarrow>
                   Run (Inr fullResponse)
                     (if truthy (trim sentenceBuffer) then emitted @ [trim sentenceBuffer]
                      else emitted)
                     [msgs] []
                     (saveExchange now (roomName options) (transcript options) fullResponse h)))"

definition generateResponse ::
  "(prompt list \<Rightarrow> int \<Rightarrow> thrown + generated) \<Rightarrow> random_value \<Rightarrow> int \<Rightarrow> GenerateOptions
    \<Rightarrow> history \<Rightarrow> (AiGenerationError + GenerateResult) run" where
  "generateResponse generateText rnd now options h =
     (if \<not> truthy (trim (transcript options)) then
        Run (Inr (GenerateResult (getRandomFallbackResponse rnd) None)) [] [] [] h
      else
        let msgs = buildMessages (roomName options) (transcript options) h;
            maxOutputTokens = (case maxTokens options of Some n \<Rightarrow> n | None \<Rightarrow> defaultMaxTokens)
        in
          case generateText msgs maxOutputTokens of
            Inl e \<Rightarrow>
              Run (Inl (AiGenerationError ''Failed to generate response'' e (isRetryableError e)))
                [] [msgs] [] h
          | Inr result \<Rightarrow>
              Run (Inr (GenerateResult (text_r result)
                          (case usage_r result of
                             None \<Rightarrow> None
                           | Some (inputTokens, outputTokens) \<Rightarrow>
                               Some (case inputTokens of Some n \<Rightarrow> n | None \<Rightarrow> 0,
                                     case outputTokens of Some n \<Rightarrow> n | None \<Rightarrow> 0))))
                [] [msgs] []
                (saveExchange now (roomName options) (transcript options) (text_r result) h))"

text \<open>
  The \<open>for\<close> loops of the two entry points with retry, from attempt \<open>attempt\<close> on; the model's
  behaviour may differ from one attempt to the next. \<open>Some text\<close> when an attempt returned,
  \<open>None\<close> when the loop was left without one, by \<open>break\<close> or because the attempts ran out.
\<close>

function streamingAttempts ::
  "(int \<Rightarrow> prompt list \<Rightarrow> text_stream) \<Rightarrow> random_value \<Rightarrow> int \<Rightarrow> GenerateOptions \<Rightarrow> int \<Rightarrow> int
    \<Rightarrow> history \<Rightarrow> (string option) run" where
  "streamingAttempts streamText rnd now options maxRetries attempt h =
     (if attempt \<le> maxRetries then
        let r = generateStreamingResponse (streamText attempt) rnd now options h in
          case returned r of
            Inr txt \<Rightarrow> Run (Some txt) (sentences r) (requests r) (slept r) (store r)
          | Inl err \<Rightarrow>
              if \<not> isRetryable err
              then Run None (sentences r) (requests r) (slept r) (store r)
              else
                let waited = (if attempt < maxRetries then [1000 * (attempt + 1)] else []);
                    later = streamingAttempts streamText rnd now options maxRetries (attempt + 1)
                              (store r)
                in Run (returned later) (sentences r @ sentences later)
                     (requests r @ requests later) (slept r @ waited @ slept later) (store later)
      else Run None [] [] [] h)"
  by pat_completeness auto
termination
  by (relation "measure (\<lambda>(streamText, rnd, now, options, maxRetries, attempt, h).
        nat (maxRetries + 1 - attempt))") auto

definition generateStreamingResponseWithRetry ::
  "(int \<Rightarrow> prompt list \<Rightarrow> text_stream) \<Rightarrow> random_value \<Rightarrow> int \<Rightarrow> GenerateOptions \<Rightarrow> int
    \<Rightarrow> history \<Rightarrow> string run" where
  "generateStreamingResponseWithRetry streamText rnd now options maxRetries h =
     (let r = streamingAttempts streamText rnd now options maxRetries 0 h in
        case returned r of
          Some txt \<Rightarrow> Run txt (sentences r) (requests r) (slept r) (store r)
        | None \<Rightarrow>
            Run (getRandomFallbackResponse rnd) (sentences r @ [getRandomFallbackResponse rnd])
              (requests r) (slept r) (store r))"

function responseAttempts ::
  "(int \<Rightarrow> prompt list \<Rightarrow> int \<Rightarrow> thrown + generated) \<Rightarrow> random_value \<Rightarrow> int \<Rightarrow> GenerateOptions
    \<Rightarrow> int \<Rightarrow> int \<Rightarrow> history \<Rightarrow> (string option) run" where
  "responseAttempts generateText rnd now options maxRetries attempt h =
     (if attempt \<le> maxRetries then
        let r = generateResponse (generateText attempt) rnd now options h in
          case returned r of
            Inr result \<Rightarrow> Run (Some (text_g result)) (sentences r) (requests r) (slept r) (store r)
          | Inl err \<Rightarrow>
              if \<not> isRetryable err
              then Run None (sentences r) (requests r) (slept r) (store r)
              else
                let waited = (if attempt < maxRetries then [1000 * (attempt + 1)] else []);
                    later = responseAttempts generateText rnd now options maxRetries (attempt + 1)
                              (store r)
                in Run (returned later) (sentences r @ sentences later)
                     (requests r @ requests later) (slept r @ waited @ slept later) (store later)
      else Run None [] [] [] h)"
  by pat_completeness auto
termination
  by (relation "measure (\<lambda>(generateText, rnd, now, options, maxRetries, attempt, h).
        nat (maxRetries + 1 - attempt))") auto

definition generateResponseWithRetry ::
  "(int \<Rightarrow> prompt list \<Rightarrow> int \<Rightarrow> thrown + generated) \<Rightarrow> random_value \<Rightarrow> int \<Rightarrow> GenerateOptions
    \<Rightarrow> int \<Rightarrow> history \<Rightarrow> string run" where
  "generateResponseWithRetry generateText rnd now options maxRetries h =
     (let r = responseAttempts generateText rnd now options maxRetries 0 h in
        case returned r of
          Some txt \<Rightarrow> Run txt (sentences r) (requests r) (slept r) (store r)
        | None \<Rightarrow> Run (getRandomFallbackResponse rnd) (sentences r) (requests r) (slept r) (store r))"

subsection \<open>Sentence segmentation, in the words of the specification\<close>

text \<open>
  The specification describes the segmentation over the text since the last cut point:
  scanning it, every terminator that is followed by white space or by the end of the buffer
  closes a sentence, which is the text from the cut point through the terminator, trimmed,
  and the cut point advances behind the terminator. \<open>spec_segments pending rest\<close> scans
  \<open>rest\<close>, with \<open>pending\<close> the text already scanned since the cut point, and gives the
  sentences and the text left after the last cut. \<open>spec_stream buffer chunks\<close> is what the
  callback receives while the chunks arrive on top of the uncut text \<open>buffer\<close>, followed by
  the trimmed remainder, if it is not empty, when the stream has ended.
\<close>

fun spec_segments :: "string \<Rightarrow> string \<Rightarrow> string list \<times> string" where
  "spec_segments pending [] = ([], pending)"
| "spec_segments pending (c # cs) =
     (if isTerminator c \<and> (case cs of [] \<Rightarrow> True | d # _ \<Rightarrow> isWhiteSpace d)
      then (trim (pending @ [c]) # fst (spec_segments [] cs), snd (spec_segments [] cs))
      else spec_segments (pending @ [c]) cs)"

fun spec_stream :: "string \<Rightarrow> string list \<Rightarrow> string list" where
  "spec_stream buffer [] = (if trim buffer \<noteq> [] then [trim buffer] else [])"
| "spec_stream buffer (chunk # rest) =
     fst (spec_segments [] (buffer @ chunk)) @
     spec_stream (snd (spec_segments [] (buffer @ chunk))) rest"

text \<open>The loops are unfolded one iteration at a time, where a proof asks for it.\<close>

declare extract_loop.simps [simp del]

declare streamingAttempts.simps [simp del]

declare responseAttempts.simps [simp del]

subsection \<open>Vocabulary of the properties\<close>

text \<open>
  An error that does not indicate a rate limit, and an attempt that throws one. A string
  with a character that is not white space. A room map
  without sessions, and model behaviours for the examples: a stream of three chunks that
  ends, a stream that breaks off with a network error at every attempt, a \<open>generateText\<close>
  that times out at every attempt.
\<close>

definition noRateLimit :: "thrown \<Rightarrow> bool" where
  "noRateLimit e = (case e of JsError msg \<Rightarrow> \<not> includes_str msg ''rate limit'' | NonError \<Rightarrow> True)"

definition throwsNoRateLimit :: "stream_end \<Rightarrow> bool" where
  "throwsNoRateLimit e =
     (case e of
        StreamEnds \<Rightarrow> False
      | IterationThrows t \<Rightarrow> noRateLimit t
      | FinishThrows t \<Rightarrow> noRateLimit t)"

definition nonBlank :: "string \<Rightarrow> bool" where
  "nonBlank s = (\<exists>c \<in> set s. \<not> isWhiteSpace c)"

definition noHistory :: history where
  "noHistory room = None"

definition greetingStream :: "prompt list \<Rightarrow> text_stream" where
  "greetingStream msgs = TextStream [''Hi '', ''there. How '', ''are you?''] StreamEnds"

definition brokenStream :: "int \<Rightarrow> prompt list \<Rightarrow> text_stream" where
  "brokenStream attempt msgs =
     TextStream [''Sure. Let me'', '' think''] (IterationThrows (JsError ''ECONNREFUSED''))"

definition timedOutText :: "int \<Rightarrow> prompt list \<Rightarrow> int \<Rightarrow> thrown + generated" where
  "timedOutText attempt msgs maxOutputTokens = Inl (JsError ''timeout'')"

section \<open>Properties of the transcript\<close>

subsection \<open>The three outcomes of a reconciliation\<close>

lemma spread_eq: "spread a b = b"
  by (simp add: spread_def)

lemma reconcile_empty: "reconcile data r sid mt inc [] = [inc]"
  by (simp add: reconcile_def)

lemma reconcile_interim:
  assumes "senderId x = Some sid" "role x = r" "topic x = Some mt" "hasExplicitInterim data"
  shows "reconcile data r sid mt inc (xs @ [x]) = xs @ [inc\<lparr>status := Some Streaming\<rparr>]"
  using assms by (simp add: reconcile_def Let_def spread_eq)

lemma reconcile_final:
  assumes "senderId x = Some sid" "role x = r" "topic x = Some mt"
    "\<not> hasExplicitInterim data" "hasExplicitFinal data" "status x = Some Streaming"
  shows "reconcile data r sid mt inc (xs @ [x]) = xs @ [inc\<lparr>status := Some Sent\<rparr>]"
  using assms by (simp add: reconcile_def Let_def spread_eq hasExplicitFlag_def)

lemma reconcile_final_again:
  assumes "\<not> hasExplicitInterim data" "hasExplicitFinal data" "status x \<noteq> Some Streaming"
  shows "reconcile data r sid mt inc (xs @ [x]) = xs @ [x, inc]"
  using assms by (simp add: reconcile_def Let_def hasExplicitFlag_def)

lemma reconcile_explicit_interim:
  assumes "hasExplicitInterim data" "status inc = Some Streaming"
  shows "\<exists>xs. reconcile data r sid mt inc prev = xs @ [inc]"
proof (cases prev rule: rev_cases)
  case Nil
  then show ?thesis by (simp add: reconcile_def)
next
  case (snoc xs x)
  have "inc\<lparr>status := Some Streaming\<rparr> = inc"
    using assms(2) by simp
  then show ?thesis
    using assms(1) snoc by (simp add: reconcile_def Let_def spread_eq)
qed

lemma reconcile_cases:
  "reconcile data r sid mt inc prev = prev @ [inc] \<or>
   (\<exists>xs x st. prev = xs @ [x] \<and> (st = Streaming \<or> st = Sent) \<and>
      reconcile data r sid mt inc prev = xs @ [inc\<lparr>status := Some st\<rparr>])"
proof (cases prev rule: rev_cases)
  case Nil
  then show ?thesis by (simp add: reconcile_def)
next
  case (snoc xs x)
  then show ?thesis
    by (auto simp add: reconcile_def Let_def spread_eq)
qed

lemma last_entry:
  "length (xs @ [x]) \<noteq> 0"
  "(xs @ [x]) ! (length (xs @ [x]) - 1) = x"
  "(xs @ [x])[length (xs @ [x]) - 1 := y] = xs @ [y]"
  by simp_all

lemma reconcile_branches:
  "reconcile data r sid mt inc (xs @ [x]) =
     (if sameSender sid r x \<and> sameTopic mt x then
        if shouldTreatAsInterim data r sid mt x then xs @ [inc\<lparr>status := Some Streaming\<rparr>]
        else if shouldFinalizeStreaming data x \<and> status x = Some Streaming
        then xs @ [inc\<lparr>status := Some Sent\<rparr>]
        else (xs @ [x]) @ [inc]
      else (xs @ [x]) @ [inc])"
  unfolding reconcile_def Let_def last_entry(2,3) spread_eq sameSender_def sameTopic_def
    isTextContinuation_def shouldTreatAsInterim_def shouldFinalizeStreaming_def
  using last_entry(1)[of xs x] by (simp only: if_False)

subsection \<open>Handler calls on the chat topic\<close>

lemma receive_chat:
  "messageTopic_of tp data = ''chat'' \<Longrightarrow>
   messages (receive newId now data participant kind tp s) =
     reconcile data (role_of data) (senderId_of participant data) ''chat''
       (candidate newId now data participant kind tp) (messages s)"
  by (simp add: receive_def)

lemma candidate_simps:
  "senderId (candidate newId now data participant kind tp) = Some (senderId_of participant data)"
  "role (candidate newId now data participant kind tp) = role_of data"
  "topic (candidate newId now data participant kind tp) = Some (messageTopic_of tp data)"
  "text_m (candidate newId now data participant kind tp) = message data"
  "id_m (candidate newId now data participant kind tp) = newId"
  "status (candidate newId now data participant kind tp) =
     Some (if hasExplicitInterim data then Streaming else Sent)"
  by (simp_all add: candidate_def incomingMessage_def)

lemma sender_same:
  "role_d d = role_d d' \<Longrightarrow> identity d = identity d' \<Longrightarrow>
   senderId_of participant d = senderId_of participant d' \<and> role_of d = role_of d'"
  by (simp add: senderId_of_def role_of_def split: option.splits)

lemma messageTopic_chat:
  "tp = None \<or> tp = Some ''chat'' \<Longrightarrow> topic_d d = ''chat'' \<Longrightarrow> messageTopic_of tp d = ''chat''"
  by (auto simp add: messageTopic_of_def)

lemma parse_interim:
  "parseDataChannelMessage
     (JsonValue (emptyObject(''role'' := r, ''identity'' := idn, ''message'' := JStr m,
        ''interim'' := JBool True)))
   = Some \<lparr>message = m, topic_d = ''chat'', role_d = (if r = JStr ''user'' then RUser else RAi),
        timestamp_d = None, identity = typeof_string idn, isFinal = None, interim = Some True\<rparr>"
  by (simp add: parseDataChannelMessage_def typeof_string_def typeof_boolean_def typeof_number_def
      emptyObject_def)

lemma parse_final:
  "parseDataChannelMessage
     (JsonValue (emptyObject(''role'' := r, ''identity'' := idn, ''message'' := JStr m,
        ''isFinal'' := JBool True)))
   = Some \<lparr>message = m, topic_d = ''chat'', role_d = (if r = JStr ''user'' then RUser else RAi),
        timestamp_d = None, identity = typeof_string idn, isFinal = Some True, interim = None\<rparr>"
  by (simp add: parseDataChannelMessage_def typeof_string_def typeof_boolean_def typeof_number_def
      emptyObject_def)

lemma parse_plain_interim:
  "parseDataChannelMessage
     (JsonValue (emptyObject(''message'' := JStr m, ''interim'' := JBool True)))
   = Some \<lparr>message = m, topic_d = ''chat'', role_d = RAi, timestamp_d = None,
        identity = None, isFinal = None, interim = Some True\<rparr>"
  by (simp add: parseDataChannelMessage_def typeof_string_def typeof_boolean_def typeof_number_def
      emptyObject_def)

lemma parse_plain_final:
  "parseDataChannelMessage
     (JsonValue (emptyObject(''message'' := JStr m, ''isFinal'' := JBool True)))
   = Some \<lparr>message = m, topic_d = ''chat'', role_d = RAi, timestamp_d = None,
        identity = None, isFinal = Some True, interim = None\<rparr>"
  by (simp add: parseDataChannelMessage_def typeof_string_def typeof_boolean_def typeof_number_def
      emptyObject_def)

lemma parse_user_plain:
  "parseDataChannelMessage
     (JsonValue (emptyObject(''role'' := JStr ''user'', ''message'' := JStr m)))
   = Some \<lparr>message = m, topic_d = ''chat'', role_d = RUser, timestamp_d = None,
        identity = None, isFinal = None, interim = None\<rparr>"
  by (simp add: parseDataChannelMessage_def typeof_string_def typeof_boolean_def typeof_number_def
      emptyObject_def)

subsection \<open>Finalizing twice\<close>

text \<open>
  Claim C1, as stated, fails. After an interim message and a final one with the same text,
  sender and topic, the transcript ends with one entry of status \<open>sent\<close>. Feeding the final
  message a second time does not leave it at that: the finalize branch asks for a last entry
  of status \<open>streaming\<close>, the last entry is \<open>sent\<close> by then, and the candidate is appended.
  On the empty transcript the three events give two entries of status \<open>sent\<close>.
\<close>

theorem idempotent_finalization_counterexample:
  "map status (messages
     (handleDataReceived ''c'' 3
        (JsonValue (emptyObject(''message'' := JStr ''Hi'', ''isFinal'' := JBool True)))
        None None None
     (handleDataReceived ''b'' 2
        (JsonValue (emptyObject(''message'' := JStr ''Hi'', ''isFinal'' := JBool True)))
        None None None
     (handleDataReceived ''a'' 1
        (JsonValue (emptyObject(''message'' := JStr ''Hi'', ''interim'' := JBool True)))
        None None None
        \<lparr>messages = [], isAssistantLoading = False, error = None\<rparr>))))
   = [Some Sent, Some Sent]"
  by (simp add: handleDataReceived_def parseDataChannelMessage_def typeof_string_def
      typeof_boolean_def typeof_number_def emptyObject_def receive_def messageTopic_of_def
      role_of_def senderId_of_def delivery_of_def candidate_def incomingMessage_def
      hasExplicitInterim_def hasExplicitFinal_def hasExplicitFlag_def reconcile_def spread_def
      truthy_def truthy_opt_def wire_role_string_def Let_def)

text \<open>
  Claim C1, amended. For every transcript, sender, topic argument and text: after an interim
  message (\<open>interim: true\<close>) and a final message (\<open>isFinal: true\<close>) that differ in their flags
  only, on the chat topic, the final message has replaced the last entry and that entry has
  the text and status \<open>sent\<close>; feeding the same final message once more appends one further
  entry with the same text and status \<open>sent\<close>, so the transcript then ends with two of them.
\<close>

theorem repeated_final_appends:
  assumes "parseDataChannelMessage p_final = Some fin"
    and "parseDataChannelMessage p_interim = Some (fin\<lparr>isFinal := None, interim := Some True\<rparr>)"
    and "isFinal fin = Some True" and "interim fin = None"
    and "messageTopic_of tp fin = ''chat''"
  shows "let s1 = handleDataReceived i1 n1 p_interim participant k1 tp s;
             s2 = handleDataReceived i2 n2 p_final participant k2 tp s1;
             s3 = handleDataReceived i3 n3 p_final participant k3 tp s2
         in length (messages s2) = length (messages s1) \<and>
            map (\<lambda>m. (text_m m, status m)) (drop (length (messages s2) - 1) (messages s2)) =
              [(message fin, Some Sent)] \<and>
            length (messages s3) = length (messages s2) + 1 \<and>
            map (\<lambda>m. (text_m m, status m)) (drop (length (messages s2) - 1) (messages s3)) =
              [(message fin, Some Sent), (message fin, Some Sent)]"
proof -
  define d1 where "d1 = fin\<lparr>isFinal := None, interim := Some True\<rparr>"
  define r where "r = role_of fin"
  define sid where "sid = senderId_of participant fin"
  define c1 where "c1 = candidate i1 n1 d1 participant k1 tp"
  define c2 where "c2 = (candidate i2 n2 fin participant k2 tp)\<lparr>status := Some Sent\<rparr>"
  define c3 where "c3 = candidate i3 n3 fin participant k3 tp"
  have fl: "hasExplicitInterim d1" "\<not> hasExplicitInterim fin" "hasExplicitFinal fin"
    using assms(3,4) by (simp_all add: hasExplicitInterim_def hasExplicitFinal_def d1_def)
  have t1: "messageTopic_of tp d1 = ''chat''"
    using assms(5) by (simp add: messageTopic_of_def d1_def split: option.splits)
  have sd: "senderId_of participant d1 = sid" "role_of d1 = r"
    using sender_same[of d1 fin participant] by (simp_all add: d1_def sid_def r_def)
  let ?s1 = "receive i1 n1 d1 participant k1 tp s"
  let ?s2 = "receive i2 n2 fin participant k2 tp ?s1"
  let ?s3 = "receive i3 n3 fin participant k3 tp ?s2"
  obtain xs where m1: "messages ?s1 = xs @ [c1]"
    using reconcile_explicit_interim[OF fl(1), of c1 r sid "''chat''" "messages s"]
    by (auto simp add: receive_chat t1 sd c1_def candidate_simps fl)
  have m2: "messages ?s2 = xs @ [c2]"
    using reconcile_final[where xs = xs and x = c1 and data = fin and sid = sid and r = r
        and mt = "''chat''" and inc = "candidate i2 n2 fin participant k2 tp"]
    by (simp add: receive_chat assms(5) m1 c1_def c2_def candidate_simps sd t1 fl
        flip: sid_def r_def)
  have m3: "messages ?s3 = xs @ [c2, c3]"
    using reconcile_final_again[where xs = xs and x = c2 and data = fin and sid = sid and r = r
        and mt = "''chat''" and inc = c3]
    by (simp add: receive_chat assms(5) m2 c2_def c3_def fl flip: sid_def r_def)
  have tx: "text_m c2 = message fin" "status c2 = Some Sent" "text_m c3 = message fin"
    "status c3 = Some Sent"
    by (simp_all add: c2_def c3_def candidate_simps fl)
  show ?thesis
    by (simp add: Let_def handleDataReceived_def assms(1,2) m1 m2 m3 tx flip: d1_def)
qed

theorem repeated_final_appends_witness:
  "parseDataChannelMessage
     (JsonValue (emptyObject(''message'' := JStr ''Hi'', ''isFinal'' := JBool True)))
     = Some \<lparr>message = ''Hi'', topic_d = ''chat'', role_d = RAi, timestamp_d = None,
             identity = None, isFinal = Some True, interim = None\<rparr> \<and>
   parseDataChannelMessage
     (JsonValue (emptyObject(''message'' := JStr ''Hi'', ''interim'' := JBool True)))
     = Some \<lparr>message = ''Hi'', topic_d = ''chat'', role_d = RAi, timestamp_d = None,
             identity = None, isFinal = None, interim = Some True\<rparr> \<and>
   map (\<lambda>m. (text_m m, status m)) (messages
     (handleDataReceived ''c'' 3
        (JsonValue (emptyObject(''message'' := JStr ''Hi'', ''isFinal'' := JBool True)))
        None None None
     (handleDataReceived ''b'' 2
        (JsonValue (emptyObject(''message'' := JStr ''Hi'', ''isFinal'' := JBool True)))
        None None None
     (handleDataReceived ''a'' 1
        (JsonValue (emptyObject(''message'' := JStr ''Hi'', ''interim'' := JBool True)))
        None None None
        \<lparr>messages = [], isAssistantLoading = False, error = None\<rparr>))))
   = [(''Hi'', Some Sent), (''Hi'', Some Sent)]"
proof -
  let ?pf = "JsonValue (emptyObject(''message'' := JStr ''Hi'', ''isFinal'' := JBool True))"
  let ?pi = "JsonValue (emptyObject(''message'' := JStr ''Hi'', ''interim'' := JBool True))"
  let ?fin = "\<lparr>message = ''Hi'', topic_d = ''chat'', role_d = RAi, timestamp_d = None,
             identity = None, isFinal = Some True, interim = None\<rparr>"
  have h1: "parseDataChannelMessage ?pf = Some ?fin"
    by (simp add: parse_plain_final)
  have h2: "parseDataChannelMessage ?pi = Some (?fin\<lparr>isFinal := None, interim := Some True\<rparr>)"
    by (simp add: parse_plain_interim)
  have h3: "messageTopic_of None ?fin = ''chat''"
    by (simp add: messageTopic_of_def)
  have base: "messages (handleDataReceived ''a'' 1 ?pi None None None
        \<lparr>messages = [], isAssistantLoading = False, error = None\<rparr>) =
      [candidate ''a'' 1 (?fin\<lparr>isFinal := None, interim := Some True\<rparr>) None None None]"
    by (simp add: handleDataReceived_def h2 receive_chat h3 messageTopic_of_def reconcile_empty)
  show ?thesis
    using repeated_final_appends[OF h1 h2 _ _ h3, of "''a''" 1 None None
        "\<lparr>messages = [], isAssistantLoading = False, error = None\<rparr>" "''b''" 2 None "''c''" 3 None]
      h1 h2
    by (auto simp add: Let_def base)
qed

subsection \<open>Merging a growing utterance\<close>

text \<open>
  Claim C2. From the empty transcript, the events \<open>{message: "Hel", interim: true}\<close>,
  \<open>{message: "Hello", interim: true}\<close> and \<open>{message: "Hello world", isFinal: true}\<close>, from
  one sender (the same participant, and the same \<open>role\<close> and \<open>identity\<close> properties, whatever
  they are) and on the chat topic (no topic argument, or \<open>"chat"\<close>), leave exactly one entry,
  with text \<open>"Hello world"\<close> and status \<open>sent\<close>.
\<close>

theorem continuation_merge:
  assumes "tp = None \<or> tp = Some ''chat''"
  shows "map (\<lambda>m. (text_m m, status m))
     (messages
       (handleDataReceived i3 n3
          (JsonValue (emptyObject(''role'' := r, ''identity'' := idn,
             ''message'' := JStr ''Hello world'', ''isFinal'' := JBool True)))
          participant k3 tp
       (handleDataReceived i2 n2
          (JsonValue (emptyObject(''role'' := r, ''identity'' := idn,
             ''message'' := JStr ''Hello'', ''interim'' := JBool True)))
          participant k2 tp
       (handleDataReceived i1 n1
          (JsonValue (emptyObject(''role'' := r, ''identity'' := idn,
             ''message'' := JStr ''Hel'', ''interim'' := JBool True)))
          participant k1 tp
          (s\<lparr>messages := []\<rparr>))))) = [(''Hello world'', Some Sent)]"
proof -
  define d1 where "d1 = \<lparr>message = ''Hel'', topic_d = ''chat'',
        role_d = (if r = JStr ''user'' then RUser else RAi),
        timestamp_d = None, identity = typeof_string idn, isFinal = None, interim = Some True\<rparr>"
  define d2 where "d2 = \<lparr>message = ''Hello'', topic_d = ''chat'',
        role_d = (if r = JStr ''user'' then RUser else RAi),
        timestamp_d = None, identity = typeof_string idn, isFinal = None, interim = Some True\<rparr>"
  define d3 where "d3 = \<lparr>message = ''Hello world'', topic_d = ''chat'',
        role_d = (if r = JStr ''user'' then RUser else RAi),
        timestamp_d = None, identity = typeof_string idn, isFinal = Some True, interim = None\<rparr>"
  have t: "messageTopic_of tp d1 = ''chat''" "messageTopic_of tp d2 = ''chat''"
    "messageTopic_of tp d3 = ''chat''"
    using assms by (simp_all add: messageTopic_chat d1_def d2_def d3_def)
  have fl: "hasExplicitInterim d1" "hasExplicitInterim d2" "\<not> hasExplicitInterim d3"
    "hasExplicitFinal d3"
    by (simp_all add: hasExplicitInterim_def hasExplicitFinal_def d1_def d2_def d3_def)
  have sd: "senderId_of participant d2 = senderId_of participant d1" "role_of d2 = role_of d1"
     "senderId_of participant d3 = senderId_of participant d1" "role_of d3 = role_of d1"
    using sender_same[of d2 d1 participant] sender_same[of d3 d1 participant]
    by (simp_all add: d1_def d2_def d3_def)
  let ?s1 = "receive i1 n1 d1 participant k1 tp (s\<lparr>messages := []\<rparr>)"
  let ?s2 = "receive i2 n2 d2 participant k2 tp ?s1"
  let ?s3 = "receive i3 n3 d3 participant k3 tp ?s2"
  have m1: "messages ?s1 = [candidate i1 n1 d1 participant k1 tp]"
    by (simp add: receive_chat t reconcile_empty)
  have m2: "messages ?s2 = [(candidate i2 n2 d2 participant k2 tp)\<lparr>status := Some Streaming\<rparr>]"
    using reconcile_interim[where xs = "[]" and x = "candidate i1 n1 d1 participant k1 tp"
        and data = d2 and sid = "senderId_of participant d2" and r = "role_of d2"
        and mt = "''chat''"]
    by (simp add: receive_chat t m1 candidate_simps sd fl)
  have m3: "messages ?s3 = [(candidate i3 n3 d3 participant k3 tp)\<lparr>status := Some Sent\<rparr>]"
    using reconcile_final[where xs = "[]"
        and x = "(candidate i2 n2 d2 participant k2 tp)\<lparr>status := Some Streaming\<rparr>"
        and data = d3 and sid = "senderId_of participant d3" and r = "role_of d3"
        and mt = "''chat''"]
    by (simp add: receive_chat t m2 candidate_simps sd fl)
  show ?thesis
    by (simp add: handleDataReceived_def parse_interim parse_final m3 candidate_simps
        flip: d1_def d2_def d3_def) (simp add: d3_def)
qed

theorem continuation_merge_witness:
  "((None :: string option) = None \<or> (None :: string option) = Some ''chat'') \<and>
   map (\<lambda>m. (text_m m, status m))
     (messages
       (handleDataReceived ''c'' 3
          (JsonValue (emptyObject(''role'' := JStr ''user'', ''identity'' := JStr ''ann'',
             ''message'' := JStr ''Hello world'', ''isFinal'' := JBool True)))
          None None None
       (handleDataReceived ''b'' 2
          (JsonValue (emptyObject(''role'' := JStr ''user'', ''identity'' := JStr ''ann'',
             ''message'' := JStr ''Hello'', ''interim'' := JBool True)))
          None None None
       (handleDataReceived ''a'' 1
          (JsonValue (emptyObject(''role'' := JStr ''user'', ''identity'' := JStr ''ann'',
             ''message'' := JStr ''Hel'', ''interim'' := JBool True)))
          None None None
          (\<lparr>messages = [], isAssistantLoading = False, error = None\<rparr>\<lparr>messages := []\<rparr>)))))
     = [(''Hello world'', Some Sent)]"
  using continuation_merge[of None "''c''" 3 "JStr ''user''" "JStr ''ann''" None None "''b''" 2
      None "''a''" 1 None "\<lparr>messages = [], isAssistantLoading = False, error = None\<rparr>"]
  by simp

subsection \<open>Inbound traffic touches the last entry only\<close>

text \<open>
  Claim C7. For every inbound event (payload, participant, kind, topic argument) and every
  prior state, the transcript after \<open>handleDataReceived\<close> is the prior one unchanged, or the
  prior one with one entry appended, or the prior one with its last entry replaced and every
  other entry as before.
\<close>

theorem inbound_touches_only_last:
  "messages (handleDataReceived newId now p participant kind tp s) = messages s \<or>
   (\<exists>m. messages (handleDataReceived newId now p participant kind tp s) = messages s @ [m]) \<or>
   (\<exists>xs x m. messages s = xs @ [x] \<and>
      messages (handleDataReceived newId now p participant kind tp s) = xs @ [m])"
proof (cases "parseDataChannelMessage p")
  case None
  then show ?thesis by (simp add: handleDataReceived_def)
next
  case (Some data)
  show ?thesis
    using reconcile_cases[of data "role_of data" "senderId_of participant data"
        "messageTopic_of tp data" "candidate newId now data participant kind tp" "messages s"]
    by (auto simp add: handleDataReceived_def Some receive_def addMessage_def)
qed

theorem inbound_touches_only_last_witness:
  "messages (handleDataReceived ''b'' 2
      (JsonValue (emptyObject(''message'' := JStr ''agent busy'', ''topic'' := JStr ''status'')))
      None None None
      \<lparr>messages = [], isAssistantLoading = False, error = None\<rparr>) = messages \<lparr>messages = [], isAssistantLoading = False, error = None\<rparr> \<or>
   (\<exists>m. messages (handleDataReceived ''b'' 2
      (JsonValue (emptyObject(''message'' := JStr ''agent busy'', ''topic'' := JStr ''status'')))
      None None None
      \<lparr>messages = [], isAssistantLoading = False, error = None\<rparr>) = messages \<lparr>messages = [], isAssistantLoading = False, error = None\<rparr> @ [m]) \<or>
   (\<exists>xs x m. messages \<lparr>messages = [], isAssistantLoading = False, error = None\<rparr> = xs @ [x] \<and>
      messages (handleDataReceived ''b'' 2
      (JsonValue (emptyObject(''message'' := JStr ''agent busy'', ''topic'' := JStr ''status'')))
      None None None
      \<lparr>messages = [], isAssistantLoading = False, error = None\<rparr>) = xs @ [m])"
  by (rule inbound_touches_only_last)

subsection \<open>A merge overwrites the whole entry\<close>

text \<open>
  Claim C10. Let a chat event arrive on a transcript with last entry \<open>x\<close>. On the
  interim-update branch (same sender, same topic, \<open>shouldTreatAsInterim\<close>) the last entry is
  replaced by an entry that has the id generated for this event, the event's role and text,
  the payload's timestamp or else the clock reading, the resolved sender, the topic and the
  delivery of this event, and status \<open>streaming\<close>, also when the candidate's own status was
  \<open>sent\<close>. On the finalize branch (same sender, same topic, not treated as interim,
  \<open>shouldFinalizeStreaming\<close>, and \<open>x\<close> streaming) it is replaced by that entry with status
  \<open>sent\<close>. In both nothing of \<open>x\<close> is kept, its id included, and the entries before it are
  as they were. In every other case \<open>x\<close> stays and the candidate is appended with its own
  status; so the length of the transcript is unchanged exactly on the two merging branches.
\<close>

theorem merge_replaces_every_field:
  fixes newId :: string and now :: int and data :: DataChannelMessage
    and participant :: "string option" and kind :: "DataPacket_Kind option"
  defines "r \<equiv> role_of data"
    and "sid \<equiv> senderId_of participant data"
    and "entry \<equiv> \<lambda>st. \<lparr>id_m = newId, role = role_of data, text_m = message data,
              timestamp = (case timestamp_d data of Some t \<Rightarrow> t | None \<Rightarrow> now),
              senderId = Some (senderId_of participant data), topic = Some ''chat'',
              status = Some st, delivery = Some (delivery_of kind)\<rparr>"
  assumes "parseDataChannelMessage p = Some data"
    and "messageTopic_of tp data = ''chat''"
    and "messages s = xs @ [x]"
  shows "(sameSender sid r x \<and> sameTopic ''chat'' x \<and>
          shouldTreatAsInterim data r sid ''chat'' x \<longrightarrow>
            messages (handleDataReceived newId now p participant kind tp s) =
              xs @ [entry Streaming]) \<and>
         (sameSender sid r x \<and> sameTopic ''chat'' x \<and>
          \<not> shouldTreatAsInterim data r sid ''chat'' x \<and>
          shouldFinalizeStreaming data x \<and> status x = Some Streaming \<longrightarrow>
            messages (handleDataReceived newId now p participant kind tp s) =
              xs @ [entry Sent]) \<and>
         (\<not> (sameSender sid r x \<and> sameTopic ''chat'' x \<and>
             (shouldTreatAsInterim data r sid ''chat'' x \<or>
              shouldFinalizeStreaming data x \<and> status x = Some Streaming)) \<longrightarrow>
            messages (handleDataReceived newId now p participant kind tp s) =
              xs @ [x, entry (if hasExplicitInterim data then Streaming else Sent)]) \<and>
         (length (messages (handleDataReceived newId now p participant kind tp s)) =
            length (messages s)) =
           (sameSender sid r x \<and> sameTopic ''chat'' x \<and>
             (shouldTreatAsInterim data r sid ''chat'' x \<or>
              shouldFinalizeStreaming data x \<and> status x = Some Streaming))"
proof -
  let ?inc = "candidate newId now data participant kind tp"
  have m: "messages (handleDataReceived newId now p participant kind tp s) =
      reconcile data r sid ''chat'' ?inc (xs @ [x])"
    using assms(4,5,6) by (simp add: handleDataReceived_def receive_chat r_def sid_def)
  have c: "?inc = entry (if hasExplicitInterim data then Streaming else Sent)"
    "?inc\<lparr>status := Some Streaming\<rparr> = entry Streaming"
    "?inc\<lparr>status := Some Sent\<rparr> = entry Sent"
    using assms(5) by (simp_all add: candidate_def incomingMessage_def entry_def)
  show ?thesis
    unfolding m reconcile_branches c assms(6)
    by (cases "sameSender sid r x"; cases "sameTopic ''chat'' x";
        cases "shouldTreatAsInterim data r sid ''chat'' x";
        cases "shouldFinalizeStreaming data x"; cases "status x = Some Streaming")
       (simp_all add: entry_def)
qed

theorem merge_replaces_every_field_witness:
  "parseDataChannelMessage
     (JsonValue (emptyObject(''role'' := JStr ''user'', ''message'' := JStr ''Hello'')))
     = Some \<lparr>message = ''Hello'', topic_d = ''chat'', role_d = RUser, timestamp_d = None,
             identity = None, isFinal = None, interim = None\<rparr> \<and>
   messageTopic_of None \<lparr>message = ''Hello'', topic_d = ''chat'', role_d = RUser,
     timestamp_d = None, identity = None, isFinal = None, interim = None\<rparr> = ''chat'' \<and>
   sameSender ''user'' User
     \<lparr>id_m = ''a'', role = User, text_m = ''Hel'', timestamp = 1, senderId = Some ''user'',
      topic = Some ''chat'', status = Some Sent, delivery = Some Lossy\<rparr> \<and>
   sameTopic ''chat''
     \<lparr>id_m = ''a'', role = User, text_m = ''Hel'', timestamp = 1, senderId = Some ''user'',
      topic = Some ''chat'', status = Some Sent, delivery = Some Lossy\<rparr> \<and>
   shouldTreatAsInterim
     \<lparr>message = ''Hello'', topic_d = ''chat'', role_d = RUser, timestamp_d = None,
      identity = None, isFinal = None, interim = None\<rparr> User ''user'' ''chat''
     \<lparr>id_m = ''a'', role = User, text_m = ''Hel'', timestamp = 1, senderId = Some ''user'',
      topic = Some ''chat'', status = Some Sent, delivery = Some Lossy\<rparr> \<and>
   messages (handleDataReceived ''b'' 2
      (JsonValue (emptyObject(''role'' := JStr ''user'', ''message'' := JStr ''Hello'')))
      None None None
      \<lparr>messages = [\<lparr>id_m = ''a'', role = User, text_m = ''Hel'', timestamp = 1,
          senderId = Some ''user'', topic = Some ''chat'', status = Some Sent,
          delivery = Some Lossy\<rparr>], isAssistantLoading = False, error = None\<rparr>) =
     [\<lparr>id_m = ''b'', role = User, text_m = ''Hello'', timestamp = 2, senderId = Some ''user'',
       topic = Some ''chat'', status = Some Streaming, delivery = Some Reliable\<rparr>]"
proof -
  let ?p = "JsonValue (emptyObject(''role'' := JStr ''user'', ''message'' := JStr ''Hello''))"
  let ?d = "\<lparr>message = ''Hello'', topic_d = ''chat'', role_d = RUser, timestamp_d = None,
             identity = None, isFinal = None, interim = None\<rparr>"
  let ?m = "\<lparr>id_m = ''a'', role = User, text_m = ''Hel'', timestamp = 1,
          senderId = Some ''user'', topic = Some ''chat'', status = Some Sent,
          delivery = Some Lossy\<rparr>"
  let ?s = "\<lparr>messages = [?m], isAssistantLoading = False, error = None\<rparr>"
  have h1: "parseDataChannelMessage ?p = Some ?d"
    by (rule parse_user_plain)
  have h2: "messageTopic_of None ?d = ''chat''"
    by (simp add: messageTopic_of_def)
  have h3: "messages ?s = [] @ [?m]"
    by simp
  have v: "role_of ?d = User" "senderId_of None ?d = ''user''" "delivery_of None = Reliable"
    by (simp_all add: role_of_def senderId_of_def wire_role_string_def delivery_of_def)
  have b: "sameSender ''user'' User ?m" "sameTopic ''chat'' ?m"
    "shouldTreatAsInterim ?d User ''user'' ''chat'' ?m"
    by (simp_all add: sameSender_def sameTopic_def shouldTreatAsInterim_def
        isTextContinuation_def hasExplicitFlag_def hasExplicitInterim_def hasExplicitFinal_def
        truthy_def truthy_opt_def)
  have "messages (handleDataReceived ''b'' 2 ?p None None None ?s) =
      [] @ [\<lparr>id_m = ''b'', role = role_of ?d, text_m = message ?d,
              timestamp = (case timestamp_d ?d of Some t \<Rightarrow> t | None \<Rightarrow> 2),
              senderId = Some (senderId_of None ?d), topic = Some ''chat'',
              status = Some Streaming, delivery = Some (delivery_of None)\<rparr>]"
    using merge_replaces_every_field[where newId = "''b''" and now = 2 and participant = None
        and kind = None, OF h1 h2 h3, THEN conjunct1] b
    unfolding v by (rule mp[OF _ conjI[OF _ conjI]])
  then have r: "messages (handleDataReceived ''b'' 2 ?p None None None ?s) =
     [\<lparr>id_m = ''b'', role = User, text_m = ''Hello'', timestamp = 2, senderId = Some ''user'',
       topic = Some ''chat'', status = Some Streaming, delivery = Some Reliable\<rparr>]"
    by (simp add: v)
  show ?thesis
    by (intro conjI) (rule h1, rule h2, rule b(1), rule b(2), rule b(3), rule r)
qed

section \<open>Properties of sending\<close>

text \<open>
  Claim C8. When \<open>handleSendMessage\<close> is called and there is no room, nothing is published,
  the error is the connectivity message, and the transcript is the prior one where every
  entry with the retry id has status \<open>failed\<close> and every other entry is as before, or, when
  no retry id is given (absent, or empty and so falsy), the prior one followed by the new
  entry, which has status \<open>failed\<close>.
\<close>

theorem send_when_disconnected:
  "snd (handleSendMessage False syncThrows participantIdentity newId now txt retryMessageId s) = None \<and>
   error (fst (handleSendMessage False syncThrows participantIdentity newId now txt retryMessageId s)) =
     Some ''Not connected to room. Cannot send message.'' \<and>
   messages (fst (handleSendMessage False syncThrows participantIdentity newId now txt retryMessageId s)) =
     (if truthy_opt retryMessageId
      then map (\<lambda>msg. if Some (id_m msg) = retryMessageId then msg\<lparr>status := Some Failed\<rparr> else msg)
             (messages s)
      else messages s @
             [\<lparr>id_m = newId, role = User, text_m = txt, timestamp = now,
               senderId = Some (if participantIdentity = [] then ''user'' else participantIdentity),
               topic = Some ''chat'', status = Some Failed, delivery = None\<rparr>])"
  by (auto simp add: handleSendMessage_def Let_def updateMessageStatus_def outgoingMessage_def
      truthy_opt_def truthy_def split: option.splits)

theorem send_when_disconnected_witness:
  "snd (handleSendMessage False False ''ann'' ''n'' 5 ''hello'' (Some ''b'')
      \<lparr>messages = [\<lparr>id_m = ''a'', role = User, text_m = ''hi'', timestamp = 1,
          senderId = Some ''ann'', topic = Some ''chat'', status = Some Sent, delivery = None\<rparr>,
         \<lparr>id_m = ''b'', role = User, text_m = ''hello'', timestamp = 2,
          senderId = Some ''ann'', topic = Some ''chat'', status = Some Failed, delivery = None\<rparr>],
        isAssistantLoading = False, error = None\<rparr>) = None \<and>
   map (\<lambda>m. (id_m m, status m)) (messages (fst (handleSendMessage False False ''ann'' ''n'' 5 ''hello'' (Some ''b'')
      \<lparr>messages = [\<lparr>id_m = ''a'', role = User, text_m = ''hi'', timestamp = 1,
          senderId = Some ''ann'', topic = Some ''chat'', status = Some Sent, delivery = None\<rparr>,
         \<lparr>id_m = ''b'', role = User, text_m = ''hello'', timestamp = 2,
          senderId = Some ''ann'', topic = Some ''chat'', status = Some Failed, delivery = None\<rparr>],
        isAssistantLoading = False, error = None\<rparr>))) = [(''a'', Some Sent), (''b'', Some Failed)]"
  using send_when_disconnected[of False "''ann''" "''n''" 5 "''hello''" "Some ''b''"
      "\<lparr>messages = [\<lparr>id_m = ''a'', role = User, text_m = ''hi'', timestamp = 1,
          senderId = Some ''ann'', topic = Some ''chat'', status = Some Sent, delivery = None\<rparr>,
         \<lparr>id_m = ''b'', role = User, text_m = ''hello'', timestamp = 2,
          senderId = Some ''ann'', topic = Some ''chat'', status = Some Failed, delivery = None\<rparr>],
        isAssistantLoading = False, error = None\<rparr>"]
  by (simp add: truthy_opt_def truthy_def)

section \<open>Properties of the conversation history\<close>

lemma getHistory_add_same:
  "getHistory (addToHistory now room r c h) room =
     (let pushed = getHistory h room @ [\<lparr>role_c = r, content = c, timestamp_c = now\<rparr>]
      in if length pushed > 20 then drop (length pushed - 10) pushed else pushed)"
  by (simp add: getHistory_def addToHistory_def Let_def maxHistoryMessages_def split: option.splits)

lemma getHistory_add_other:
  "room' \<noteq> room \<Longrightarrow> getHistory (addToHistory now room' r c h) room = getHistory h room"
  by (simp add: getHistory_def addToHistory_def Let_def)

lemma appendAll_append: "appendAll (ops @ ops') h = appendAll ops' (appendAll ops h)"
  by (induction ops h rule: appendAll.induct) simp_all

lemma appendAll_length:
  "length (getHistory h room) \<le> 20 \<Longrightarrow> length (getHistory (appendAll ops h) room) \<le> 20"
proof (induction ops h rule: appendAll.induct)
  case (1 h)
  then show ?case by simp
next
  case (2 room' r c now ops h)
  have "length (getHistory (addToHistory now room' r c h) room) \<le> 20"
    using "2.prems"
    by (cases "room' = room") (auto simp add: getHistory_add_same getHistory_add_other Let_def)
  then show ?case
    using "2.IH" by simp
qed

lemma appendAll_suffix:
  "suffix (getHistory h room) base \<Longrightarrow>
   suffix (getHistory (appendAll ops h) room) (base @ appendedTo room ops)"
proof (induction ops h arbitrary: base rule: appendAll.induct)
  case (1 h)
  then show ?case by simp
next
  case (2 room' r c now ops h)
  show ?case
  proof (cases "room' = room")
    case False
    then show ?thesis
      using "2.IH"[of base] "2.prems" by (simp add: getHistory_add_other)
  next
    case True
    let ?m = "\<lparr>role_c = r, content = c, timestamp_c = now\<rparr>"
    have "suffix (getHistory h room @ [?m]) (base @ [?m])"
      using "2.prems" by simp
    moreover have "suffix (getHistory (addToHistory now room' r c h) room) (getHistory h room @ [?m])"
      by (simp add: True getHistory_add_same Let_def suffix_drop)
    ultimately have "suffix (getHistory (addToHistory now room' r c h) room) (base @ [?m])"
      by (rule suffix_order.trans[rotated])
    then show ?thesis
      using "2.IH"[of "base @ [?m]"] True by simp
  qed
qed

lemma getHistory_noHistory: "getHistory Map.empty room = []"
  by (simp add: getHistory_def)

text \<open>
  Claim C6. Starting from a store without sessions, after any sequence of \<open>addToHistory\<close>
  calls, to whatever rooms, every room holds at most 20 messages, and they are a suffix, in
  order, of the messages appended to that room. One more append to a room that holds fewer
  than 20 adds the message at the end; one more append to a room that holds 20 leaves the 10
  most recent of the 21, the new one last.
\<close>

theorem history_bound:
  "length (getHistory (appendAll ops Map.empty) room) \<le> 20 \<and>
   suffix (getHistory (appendAll ops Map.empty) room) (appendedTo room ops) \<and>
   (length (getHistory (appendAll ops Map.empty) room) < 20 \<longrightarrow>
      getHistory (appendAll (ops @ [(room, r, c, now)]) Map.empty) room =
        getHistory (appendAll ops Map.empty) room @ [\<lparr>role_c = r, content = c, timestamp_c = now\<rparr>]) \<and>
   (length (getHistory (appendAll ops Map.empty) room) = 20 \<longrightarrow>
      getHistory (appendAll (ops @ [(room, r, c, now)]) Map.empty) room =
        drop 11 (getHistory (appendAll ops Map.empty) room @
                 [\<lparr>role_c = r, content = c, timestamp_c = now\<rparr>]) \<and>
      length (getHistory (appendAll (ops @ [(room, r, c, now)]) Map.empty) room) = 10)"
proof -
  have a: "length (getHistory (appendAll ops Map.empty) room) \<le> 20"
    by (rule appendAll_length) (simp add: getHistory_noHistory)
  have b: "suffix (getHistory (appendAll ops Map.empty) room) (appendedTo room ops)"
    using appendAll_suffix[of Map.empty room "[]" ops] by (simp add: getHistory_noHistory)
  show ?thesis
    using a b by (simp add: appendAll_append getHistory_add_same Let_def)
qed

lemma twenty_appends:
  "length (getHistory (appendAll (replicate 20 (''lobby'', CUser, ''hi'', 0)) Map.empty) ''lobby'')
     = 20"
  by code_simp

theorem history_bound_witness:
  "length (getHistory (appendAll (replicate 20 (''lobby'', CUser, ''hi'', 0)) Map.empty) ''lobby'') = 20 \<and>
   length (getHistory (appendAll (replicate 20 (''lobby'', CUser, ''hi'', 0) @
       [(''lobby'', CAssistant, ''bye'', 1)]) Map.empty) ''lobby'') = 10 \<and>
   length (getHistory (appendAll (replicate 20 (''lobby'', CUser, ''hi'', 0) @
       [(''lobby'', CAssistant, ''bye'', 1)]) Map.empty) ''lobby'') \<le> 20"
  using history_bound[of "replicate 20 (''lobby'', CUser, ''hi'', 0)" "''lobby''" CAssistant "''bye''" 1]
    history_bound[of "replicate 20 (''lobby'', CUser, ''hi'', 0) @ [(''lobby'', CAssistant, ''bye'', 1)]" "''lobby''"] twenty_appends
  by blast

section \<open>Properties of the response generator\<close>

subsection \<open>The fallback line\<close>

lemma fallback_index:
  "nat \<lfloor>Rep_random_value rnd * real (length FALLBACK_RESPONSES)\<rfloor> < length FALLBACK_RESPONSES"
  using Rep_random_value[of rnd]
  by (simp add: FALLBACK_RESPONSES_def floor_less_iff nat_less_iff)

lemma fallback_member: "getRandomFallbackResponse rnd \<in> set FALLBACK_RESPONSES"
  using fallback_index[of rnd] by (simp add: getRandomFallbackResponse_def Let_def)

lemma fallback_nonempty: "getRandomFallbackResponse rnd \<noteq> []"
  using fallback_member[of rnd] by (auto simp add: FALLBACK_RESPONSES_def)

lemma rep_zero: "Rep_random_value (Abs_random_value 0) = 0"
  by (simp add: Abs_random_value_inverse)

lemma rep_half: "Rep_random_value (Abs_random_value (1/2)) = 1/2"
  by (simp add: Abs_random_value_inverse)

lemma fallback_zero:
  "getRandomFallbackResponse (Abs_random_value 0) = ''I'm having trouble understanding. Could you try again?''"
  by (simp add: getRandomFallbackResponse_def rep_zero FALLBACK_RESPONSES_def)

lemma fallback_half:
  "getRandomFallbackResponse (Abs_random_value (1/2)) = ''I couldn't process that. Could you rephrase?''"
  by (simp add: getRandomFallbackResponse_def rep_half FALLBACK_RESPONSES_def)

subsection \<open>Blank transcripts\<close>

lemma gsr_blank:
  "trim (transcript options) = [] \<Longrightarrow>
   generateStreamingResponse streamText rnd now options h =
     Run (Inr (getRandomFallbackResponse rnd)) [getRandomFallbackResponse rnd] [] [] h"
  by (simp add: generateStreamingResponse_def truthy_def)

lemma gr_blank:
  "trim (transcript options) = [] \<Longrightarrow>
   generateResponse generateText rnd now options h =
     Run (Inr (GenerateResult (getRandomFallbackResponse rnd) None)) [] [] [] h"
  by (simp add: generateResponse_def truthy_def)

lemma gsrr_blank:
  assumes "trim (transcript options) = []"
  shows "generateStreamingResponseWithRetry streamText rnd now options maxRetries h =
     Run (getRandomFallbackResponse rnd) [getRandomFallbackResponse rnd] [] [] h"
proof (cases "0 \<le> maxRetries")
  case True
  then show ?thesis
    by (subst generateStreamingResponseWithRetry_def, subst streamingAttempts.simps)
       (simp add: gsr_blank[OF assms])
next
  case False
  then show ?thesis
    by (subst generateStreamingResponseWithRetry_def, subst streamingAttempts.simps) simp
qed

lemma grr_blank:
  assumes "trim (transcript options) = []"
  shows "generateResponseWithRetry generateText rnd now options maxRetries h =
     Run (getRandomFallbackResponse rnd) [] [] [] h"
proof (cases "0 \<le> maxRetries")
  case True
  then show ?thesis
    by (subst generateResponseWithRetry_def, subst responseAttempts.simps)
       (simp add: gr_blank[OF assms])
next
  case False
  then show ?thesis
    by (subst generateResponseWithRetry_def, subst responseAttempts.simps) simp
qed

text \<open>
  Claim C5, as stated, fails in its last part: the fallback line is not determined by the
  input. \<open>getRandomFallbackResponse\<close> indexes the three lines with \<open>Math.random()\<close>, so two
  runs on the same blank transcript, with the same model and history, return different lines
  when \<open>Math.random()\<close> returns 0 in one and 1/2 in the other.
\<close>

theorem deterministic_fallback_counterexample:
  "returned (generateStreamingResponse greetingStream (Abs_random_value 0) 0
      \<lparr>transcript = '' '', roomName = None, maxTokens = None\<rparr> noHistory) =
     Inr ''I'm having trouble understanding. Could you try again?'' \<and>
   returned (generateStreamingResponse greetingStream (Abs_random_value (1/2)) 0
      \<lparr>transcript = '' '', roomName = None, maxTokens = None\<rparr> noHistory) =
     Inr ''I couldn't process that. Could you rephrase?''"
  by (simp add: gsr_blank trim_def isWhiteSpace_def fallback_zero fallback_half)

text \<open>
  Claim C5, amended. For every transcript that is empty or white space only, whatever the
  model would do: \<open>generateStreamingResponse\<close> and \<open>generateStreamingResponseWithRetry\<close> send
  no request to the model, call the sentence callback exactly once, with the fallback line,
  return that same line and leave the history as it was; \<open>generateResponse\<close> and
  \<open>generateResponseWithRetry\<close> send no request and return the fallback line. The line is the
  one of the three \<open>FALLBACK_RESPONSES\<close> that the value of \<open>Math.random()\<close> selects.
\<close>

theorem blank_transcript_fallback:
  assumes "trim (transcript options) = []"
  shows "generateStreamingResponse streamText rnd now options h =
           Run (Inr (getRandomFallbackResponse rnd)) [getRandomFallbackResponse rnd] [] [] h \<and>
         generateStreamingResponseWithRetry streamTexts rnd now options maxRetries h =
           Run (getRandomFallbackResponse rnd) [getRandomFallbackResponse rnd] [] [] h \<and>
         generateResponse generateText rnd now options h =
           Run (Inr (GenerateResult (getRandomFallbackResponse rnd) None)) [] [] [] h \<and>
         generateResponseWithRetry generateTexts rnd now options maxRetries h =
           Run (getRandomFallbackResponse rnd) [] [] [] h \<and>
         getRandomFallbackResponse rnd \<in> set FALLBACK_RESPONSES"
  using assms by (simp add: gsr_blank gsrr_blank gr_blank grr_blank fallback_member)

theorem blank_transcript_fallback_witness:
  "trim (transcript \<lparr>transcript = [CHR '' '', CHR 0x09], roomName = Some ''lobby'', maxTokens = None\<rparr>) = [] \<and>
   generateStreamingResponseWithRetry brokenStream (Abs_random_value (1/2)) 7
     \<lparr>transcript = [CHR '' '', CHR 0x09], roomName = Some ''lobby'', maxTokens = None\<rparr> 2 noHistory =
     Run ''I couldn't process that. Could you rephrase?''
       [''I couldn't process that. Could you rephrase?''] [] [] noHistory"
proof -
  have h: "trim (transcript \<lparr>transcript = [CHR '' '', CHR 0x09], roomName = Some ''lobby'', maxTokens = None\<rparr>) = []"
    by (simp add: trim_def isWhiteSpace_def)
  show ?thesis
    using blank_transcript_fallback[OF h, of greetingStream "Abs_random_value (1/2)" 7 noHistory
        brokenStream 2 "timedOutText 0" timedOutText] h
    by (simp add: fallback_half)
qed

subsection \<open>Exhausted retries\<close>

lemma isRetryableError_noRateLimit: "isRetryableError e = noRateLimit e"
  by (cases e) (auto simp add: isRetryableError_def noRateLimit_def)

lemma gsr_throws:
  assumes "throwsNoRateLimit (ending (streamText (buildMessages (roomName options) (transcript options) h)))"
    and "trim (transcript options) \<noteq> []"
  shows "\<exists>err. isRetryable err \<and>
     generateStreamingResponse streamText rnd now options h =
       Run (Inl err)
         (snd (snd (stream_loop (chunks (streamText (buildMessages (roomName options) (transcript options) h))) [] [] [])))
         [buildMessages (roomName options) (transcript options) h] [] h"
  using assms
  by (auto simp add: generateStreamingResponse_def truthy_def Let_def throwsNoRateLimit_def
      isRetryableError_noRateLimit split: prod.splits stream_end.splits)

lemma streamingAttempts_all_throw:
  assumes "\<forall>k msgs. throwsNoRateLimit (ending (streamText k msgs))"
    and "trim (transcript options) \<noteq> []"
  shows "returned (streamingAttempts streamText rnd now options maxRetries attempt h) = None \<and>
         store (streamingAttempts streamText rnd now options maxRetries attempt h) = h \<and>
         length (requests (streamingAttempts streamText rnd now options maxRetries attempt h)) =
           nat (maxRetries + 1 - attempt)"
  using assms
proof (induction streamText rnd now options maxRetries attempt h rule: streamingAttempts.induct)
  case (1 streamText rnd now options maxRetries attempt h)
  show ?case
  proof (cases "attempt \<le> maxRetries")
    case False
    then show ?thesis
      by (subst (1 2 3) streamingAttempts.simps) simp
  next
    case True
    obtain err where err: "isRetryable err"
      and r: "generateStreamingResponse (streamText attempt) rnd now options h =
       Run (Inl err)
         (snd (snd (stream_loop (chunks (streamText attempt (buildMessages (roomName options) (transcript options) h))) [] [] [])))
         [buildMessages (roomName options) (transcript options) h] [] h"
      using gsr_throws[of "streamText attempt" options h rnd now] "1.prems" by blast
    have ih: "returned (streamingAttempts streamText rnd now options maxRetries (attempt + 1) h) = None \<and>
         store (streamingAttempts streamText rnd now options maxRetries (attempt + 1) h) = h \<and>
         length (requests (streamingAttempts streamText rnd now options maxRetries (attempt + 1) h)) =
           nat (maxRetries + 1 - (attempt + 1))"
      using "1.IH"[OF True refl, of err] r err "1.prems" by simp
    show ?thesis
      using True err ih
      by (subst (1 2 3) streamingAttempts.simps) (simp add: r Let_def nat_diff_distrib)
  qed
qed

lemma gr_throws:
  assumes "\<forall>msgs n. \<exists>e. generateText msgs n = Inl e \<and> noRateLimit e"
    and "trim (transcript options) \<noteq> []"
  shows "\<exists>err. isRetryable err \<and>
     generateResponse generateText rnd now options h =
       Run (Inl err) [] [buildMessages (roomName options) (transcript options) h] [] h"
proof -
  let ?msgs = "buildMessages (roomName options) (transcript options) h"
  let ?n = "case maxTokens options of Some n \<Rightarrow> n | None \<Rightarrow> defaultMaxTokens"
  obtain e where "generateText ?msgs ?n = Inl e" "noRateLimit e"
    using assms(1) by blast
  then show ?thesis
    using assms(2)
    by (simp add: generateResponse_def truthy_def Let_def isRetryableError_noRateLimit)
qed

lemma responseAttempts_all_throw:
  assumes "\<forall>k msgs n. \<exists>e. generateText k msgs n = Inl e \<and> noRateLimit e"
    and "trim (transcript options) \<noteq> []"
  shows "returned (responseAttempts generateText rnd now options maxRetries attempt h) = None \<and>
         sentences (responseAttempts generateText rnd now options maxRetries attempt h) = [] \<and>
         store (responseAttempts generateText rnd now options maxRetries attempt h) = h \<and>
         length (requests (responseAttempts generateText rnd now options maxRetries attempt h)) =
           nat (maxRetries + 1 - attempt)"
  using assms
proof (induction generateText rnd now options maxRetries attempt h rule: responseAttempts.induct)
  case (1 generateText rnd now options maxRetries attempt h)
  show ?case
  proof (cases "attempt \<le> maxRetries")
    case False
    then show ?thesis
      by (subst (1 2 3 4) responseAttempts.simps) simp
  next
    case True
    obtain err where err: "isRetryable err"
      and r: "generateResponse (generateText attempt) rnd now options h =
       Run (Inl err) [] [buildMessages (roomName options) (transcript options) h] [] h"
      using gr_throws[of "generateText attempt" options rnd now h] "1.prems" by blast
    have ih: "returned (responseAttempts generateText rnd now options maxRetries (attempt + 1) h) = None \<and>
         sentences (responseAttempts generateText rnd now options maxRetries (attempt + 1) h) = [] \<and>
         store (responseAttempts generateText rnd now options maxRetries (attempt + 1) h) = h \<and>
         length (requests (responseAttempts generateText rnd now options maxRetries (attempt + 1) h)) =
           nat (maxRetries + 1 - (attempt + 1))"
      using "1.IH"[OF True refl, of err] r err "1.prems" by simp
    show ?thesis
      using True err ih
      by (subst (1 2 3 4) responseAttempts.simps) (simp add: r Let_def nat_diff_distrib)
  qed
qed

text \<open>
  Claim C4. When every request to the model throws an error that does not indicate a rate
  limit, both entry points with retry return normally, with a line of \<open>FALLBACK_RESPONSES\<close>,
  which is not empty; the callback of the streaming one receives that line as its last
  argument, once, after whatever sentences the failed attempts had streamed. When the
  transcript is not blank this happens after all \<open>maxRetries + 1\<close> attempts were made.
\<close>

theorem fallback_guarantee:
  assumes "\<forall>k msgs. throwsNoRateLimit (ending (streamText k msgs))"
    and "\<forall>k msgs n. \<exists>e. generateText k msgs n = Inl e \<and> noRateLimit e"
  shows "returned (generateResponseWithRetry generateText rnd now options maxRetries h) =
           getRandomFallbackResponse rnd \<and>
         returned (generateStreamingResponseWithRetry streamText rnd now options maxRetries h) =
           getRandomFallbackResponse rnd \<and>
         (\<exists>streamed. sentences (generateStreamingResponseWithRetry streamText rnd now options maxRetries h) =
            streamed @ [getRandomFallbackResponse rnd]) \<and>
         getRandomFallbackResponse rnd \<in> set FALLBACK_RESPONSES \<and>
         getRandomFallbackResponse rnd \<noteq> [] \<and>
         (trim (transcript options) \<noteq> [] \<longrightarrow>
            length (requests (generateResponseWithRetry generateText rnd now options maxRetries h)) =
              nat (maxRetries + 1) \<and>
            length (requests (generateStreamingResponseWithRetry streamText rnd now options maxRetries h)) =
              nat (maxRetries + 1) \<and>
            sentences (generateStreamingResponseWithRetry streamText rnd now options maxRetries h) =
              sentences (streamingAttempts streamText rnd now options maxRetries 0 h) @
              [getRandomFallbackResponse rnd])"
proof (cases "trim (transcript options) = []")
  case True
  then show ?thesis
    by (simp add: gsrr_blank grr_blank fallback_member fallback_nonempty)
next
  case False
  have s: "returned (streamingAttempts streamText rnd now options maxRetries 0 h) = None"
    "length (requests (streamingAttempts streamText rnd now options maxRetries 0 h)) =
       nat (maxRetries + 1)"
    using streamingAttempts_all_throw[OF assms(1) False, of rnd now maxRetries 0 h] by simp_all
  have g: "returned (responseAttempts generateText rnd now options maxRetries 0 h) = None"
    "length (requests (responseAttempts generateText rnd now options maxRetries 0 h)) =
       nat (maxRetries + 1)"
    using responseAttempts_all_throw[OF assms(2) False, of rnd now maxRetries 0 h] by simp_all
  show ?thesis
    using False
    by (simp add: generateStreamingResponseWithRetry_def generateResponseWithRetry_def Let_def
        s g fallback_member fallback_nonempty)
qed

lemma broken_attempt:
  "generateStreamingResponse (brokenStream k) rnd now
      \<lparr>transcript = ''hello'', roomName = None, maxTokens = None\<rparr> h =
   Run (Inl (AiGenerationError ''Failed to generate streaming response'' (JsError ''ECONNREFUSED'') True))
     [''Sure.'']
     [buildMessages None ''hello'' h] [] h"
proof -
  have e1: "extractCompleteSentences ''Sure. Let me'' = ([''Sure.''], ''Let me'')"
    by (simp add: extractCompleteSentences_def extract_loop.simps isTerminator_def
        isWhiteSpace_def slice_def trim_def truthy_def)
  have e2: "extractCompleteSentences ''Let me think'' = ([], ''Let me think'')"
    by (simp add: extractCompleteSentences_def extract_loop.simps isTerminator_def
        isWhiteSpace_def)
  have r: "isRetryableError (JsError ''ECONNREFUSED'')"
    by (simp add: isRetryableError_def)
  show ?thesis
    using e1 e2 r
    by (simp add: generateStreamingResponse_def brokenStream_def trim_def isWhiteSpace_def
        truthy_def Let_def)
qed

lemma broken_attempts:
  "sentences (streamingAttempts brokenStream rnd now
      \<lparr>transcript = ''hello'', roomName = None, maxTokens = None\<rparr> 2 0 h) =
     [''Sure.'', ''Sure.'', ''Sure.'']"
  by (simp add: streamingAttempts.simps broken_attempt)

theorem fallback_guarantee_witness:
  "(\<forall>k msgs. throwsNoRateLimit (ending (brokenStream k msgs))) \<and>
   (\<forall>k msgs n. \<exists>e. timedOutText k msgs n = Inl e \<and> noRateLimit e) \<and>
   returned (generateResponseWithRetry timedOutText (Abs_random_value (1/2)) 7
      \<lparr>transcript = ''hello'', roomName = None, maxTokens = None\<rparr> 2 noHistory) =
     ''I couldn't process that. Could you rephrase?'' \<and>
   returned (generateStreamingResponseWithRetry brokenStream (Abs_random_value (1/2)) 7
      \<lparr>transcript = ''hello'', roomName = None, maxTokens = None\<rparr> 2 noHistory) =
     ''I couldn't process that. Could you rephrase?'' \<and>
   sentences (generateStreamingResponseWithRetry brokenStream (Abs_random_value (1/2)) 7
      \<lparr>transcript = ''hello'', roomName = None, maxTokens = None\<rparr> 2 noHistory) =
     [''Sure.'', ''Sure.'', ''Sure.'', ''I couldn't process that. Could you rephrase?''] \<and>
   length (requests (generateStreamingResponseWithRetry brokenStream (Abs_random_value (1/2)) 7
      \<lparr>transcript = ''hello'', roomName = None, maxTokens = None\<rparr> 2 noHistory)) = 3"
proof -
  have h1: "\<forall>k msgs. throwsNoRateLimit (ending (brokenStream k msgs))"
    by (simp add: throwsNoRateLimit_def brokenStream_def noRateLimit_def)
  have h2: "\<forall>k msgs n. \<exists>e. timedOutText k msgs n = Inl e \<and> noRateLimit e"
    by (simp add: timedOutText_def noRateLimit_def)
  have t: "trim (transcript \<lparr>transcript = ''hello'', roomName = None, maxTokens = None\<rparr>) \<noteq> []"
    by (simp add: trim_def isWhiteSpace_def)
  show ?thesis
    using fallback_guarantee[OF h1 h2, of "Abs_random_value (1/2)" 7
        "\<lparr>transcript = ''hello'', roomName = None, maxTokens = None\<rparr>" 2 noHistory] h1 h2 t
    by (simp add: fallback_half broken_attempts)
qed

subsection \<open>Trimming\<close>

lemma terminator_not_space: "isTerminator c \<Longrightarrow> \<not> isWhiteSpace c"
  by (auto simp add: isTerminator_def isWhiteSpace_def)

lemma trim_space_prefix: "\<forall>c\<in>set w. isWhiteSpace c \<Longrightarrow> trim (w @ s) = trim s"
  by (simp add: trim_def dropWhile_append2)

lemma trim_space_suffix:
  assumes "\<forall>c\<in>set w. isWhiteSpace c"
  shows "trim (s @ w) = trim s"
proof (cases "\<forall>c\<in>set s. isWhiteSpace c")
  case True
  then have "dropWhile isWhiteSpace (s @ w) = []" "dropWhile isWhiteSpace s = []"
    using assms by (auto simp add: dropWhile_eq_Nil_conv)
  then show ?thesis by (simp only: trim_def)
next
  case False
  then obtain x where "x \<in> set s" "\<not> isWhiteSpace x" by blast
  then have "dropWhile isWhiteSpace (s @ w) = dropWhile isWhiteSpace s @ w"
    by (simp add: dropWhile_append1)
  moreover have "dropWhile isWhiteSpace (rev w @ t) = dropWhile isWhiteSpace t" for t
    using assms by (intro dropWhile_append2) simp
  ultimately show ?thesis
    by (simp add: trim_def)
qed

lemma trim_nonblank: "trim x \<noteq> [] \<Longrightarrow> nonBlank (trim x)"
proof -
  assume a: "trim x \<noteq> []"
  let ?e = "dropWhile isWhiteSpace (rev (dropWhile isWhiteSpace x))"
  from a have e: "?e \<noteq> []" by (simp add: trim_def)
  then have "\<not> isWhiteSpace (hd ?e)" by (rule hd_dropWhile)
  moreover have "hd ?e \<in> set ?e" using e by simp
  ultimately show ?thesis
    unfolding nonBlank_def trim_def by (metis set_rev)
qed

lemma nonBlank_trim: "nonBlank s \<Longrightarrow> trim s \<noteq> []"
proof -
  assume "nonBlank s"
  then obtain c where c: "c \<in> set s" "\<not> isWhiteSpace c" by (auto simp add: nonBlank_def)
  then have d: "dropWhile isWhiteSpace s \<noteq> []"
    by (auto simp add: dropWhile_eq_Nil_conv)
  have "\<not> isWhiteSpace (hd (dropWhile isWhiteSpace s))"
    using d by (rule hd_dropWhile)
  moreover have "hd (dropWhile isWhiteSpace s) \<in> set (rev (dropWhile isWhiteSpace s))"
    using d by simp
  ultimately have "dropWhile isWhiteSpace (rev (dropWhile isWhiteSpace s)) \<noteq> []"
    by (auto simp add: dropWhile_eq_Nil_conv)
  then show ?thesis by (simp add: trim_def)
qed

lemma nonBlank_nonempty: "nonBlank s \<Longrightarrow> s \<noteq> []"
  by (auto simp add: nonBlank_def)

lemma nonBlank_Cons: "\<not> isWhiteSpace c \<Longrightarrow> nonBlank (c # cs)"
  by (simp add: nonBlank_def)

subsection \<open>What the callback receives is never blank\<close>

lemma extract_loop_nonBlank:
  "\<forall>s\<in>set acc. nonBlank s \<Longrightarrow> \<forall>s\<in>set (fst (extract_loop b i acc)). nonBlank s"
proof (induction b i acc rule: extract_loop.induct)
  case (1 buffer lastIndex found)
  show ?case
  proof (cases "sentenceEnd_exec lastIndex (drop lastIndex buffer)")
    case None
    then show ?thesis
      using "1.prems" by (simp add: extract_loop.simps[of buffer lastIndex found])
  next
    case (Some m)
    obtain index len where m: "m = (index, len)" by (cases m)
    let ?acc = "if truthy (trim (slice buffer lastIndex (index + len)))
             then found @ [trim (slice buffer lastIndex (index + len))]
             else found"
    have acc: "\<forall>s\<in>set ?acc. nonBlank s"
      using "1.prems" by (auto simp add: truthy_def trim_nonblank)
    have "\<forall>s\<in>set (fst (extract_loop buffer (index + len) ?acc)). nonBlank s"
      by (rule "1.IH"[OF Some m[symmetric] acc])
    moreover have "extract_loop buffer lastIndex found = extract_loop buffer (index + len) ?acc"
      by (simp add: extract_loop.simps[of buffer lastIndex found] Some m)
    ultimately show ?thesis
      by simp
  qed
qed

lemma stream_loop_nonBlank:
  "\<forall>s\<in>set emitted. nonBlank s \<Longrightarrow>
   \<forall>s\<in>set (snd (snd (stream_loop cs full buf emitted))). nonBlank s"
proof (induction cs arbitrary: full buf emitted)
  case Nil
  then show ?case by simp
next
  case (Cons chunk rest)
  obtain extracted remaining where e: "extractCompleteSentences (buf @ chunk) = (extracted, remaining)"
    by (cases "extractCompleteSentences (buf @ chunk)")
  have "\<forall>s\<in>set extracted. nonBlank s"
    using extract_loop_nonBlank[of "[]" "buf @ chunk" 0] e
    by (simp add: extractCompleteSentences_def)
  then have "\<forall>s\<in>set (emitted @ extracted). nonBlank s"
    using Cons.prems by auto
  then show ?case
    using Cons.IH[of "emitted @ extracted" "full @ chunk" remaining]
      Cons.IH[of emitted "full @ chunk" "buf @ chunk"] Cons.prems
    by (simp add: e)
qed

lemma fallback_nonBlank: "nonBlank (getRandomFallbackResponse rnd)"
proof -
  have "nonBlank ''I'm having trouble understanding. Could you try again?''"
    by (rule nonBlank_Cons) (simp add: isWhiteSpace_def)
  moreover have "nonBlank ''I couldn't process that. Could you rephrase?''"
    by (rule nonBlank_Cons) (simp add: isWhiteSpace_def)
  moreover have "nonBlank ''Something went wrong on my end. Please try again.''"
    by (rule nonBlank_Cons) (simp add: isWhiteSpace_def)
  ultimately have "\<forall>s\<in>set FALLBACK_RESPONSES. nonBlank s"
    by (simp only: FALLBACK_RESPONSES_def list.set ball_simps)
  then show ?thesis
    using fallback_member[of rnd] by blast
qed

lemma gsr_nonBlank:
  "\<forall>s\<in>set (sentences (generateStreamingResponse streamText rnd now options h)). nonBlank s"
proof (cases "truthy (trim (transcript options))")
  case False
  then show ?thesis
    by (simp add: generateStreamingResponse_def fallback_nonBlank)
next
  case True
  let ?r = "streamText (buildMessages (roomName options) (transcript options) h)"
  obtain full buf out where l: "stream_loop (chunks ?r) [] [] [] = (full, buf, out)"
    by (cases "stream_loop (chunks ?r) [] [] []")
  have "\<forall>s\<in>set out. nonBlank s"
    using stream_loop_nonBlank[of "[]" "chunks ?r" "[]" "[]"] l by simp
  then show ?thesis
    using True
    by (auto simp add: generateStreamingResponse_def Let_def l truthy_def trim_nonblank
        split: stream_end.splits)
qed

lemma streamingAttempts_nonBlank:
  "\<forall>s\<in>set (sentences (streamingAttempts streamText rnd now options maxRetries attempt h)).
     nonBlank s"
proof (induction streamText rnd now options maxRetries attempt h rule: streamingAttempts.induct)
  case (1 streamText rnd now options maxRetries attempt h)
  let ?r = "generateStreamingResponse (streamText attempt) rnd now options h"
  have r: "\<forall>s\<in>set (sentences ?r). nonBlank s"
    by (rule gsr_nonBlank)
  show ?case
  proof (cases "attempt \<le> maxRetries")
    case False
    then show ?thesis
      by (subst streamingAttempts.simps) simp
  next
    case True
    show ?thesis
    proof (cases "returned ?r")
      case (Inr answer)
      then show ?thesis
        using True r by (subst streamingAttempts.simps) (simp add: Let_def)
    next
      case (Inl err)
      show ?thesis
      proof (cases "isRetryable err")
        case False
        then show ?thesis
          using True r Inl by (subst streamingAttempts.simps) (simp add: Let_def)
      next
        case retry: True
        have "\<forall>s\<in>set (sentences (streamingAttempts streamText rnd now options maxRetries
                  (attempt + 1) (store ?r))). nonBlank s"
          using "1.IH"[OF True refl Inl _ refl] retry by simp
        then show ?thesis
          using True r Inl retry
          by (subst streamingAttempts.simps) (auto simp add: Let_def)
      qed
    qed
  qed
qed

lemma greeting_chunks:
  "extractCompleteSentences ''Hi '' = ([], ''Hi '')"
  "extractCompleteSentences ''Hi there. How '' = ([''Hi there.''], ''How '')"
  "extractCompleteSentences ''How are you?'' = ([''How are you?''], [])"
  by (simp_all add: extractCompleteSentences_def extract_loop.simps isTerminator_def
      isWhiteSpace_def slice_def trim_def truthy_def)

lemma greeting_sentences:
  "trim (transcript options) \<noteq> [] \<Longrightarrow>
   sentences (generateStreamingResponse greetingStream rnd now options h) =
     [''Hi there.'', ''How are you?'']"
  by (simp add: generateStreamingResponse_def greetingStream_def truthy_def Let_def
      greeting_chunks trim_def)

text \<open>
  Claim C9. Every string that \<open>generateStreamingResponse\<close> or
  \<open>generateStreamingResponseWithRetry\<close> passes to the sentence callback, whatever the model
  does and on every path (a sentence cut from the stream, the remainder after the stream, the
  fallback for a blank transcript, the fallback after the attempts), is not empty and has a
  character that is not white space.
\<close>

theorem emitted_sentences_nonblank:
  "(\<forall>s\<in>set (sentences (generateStreamingResponse streamText rnd now options h)).
      s \<noteq> [] \<and> nonBlank s) \<and>
   (\<forall>s\<in>set (sentences (generateStreamingResponseWithRetry streamTexts rnd now options maxRetries h)).
      s \<noteq> [] \<and> nonBlank s)"
proof -
  have "\<forall>s\<in>set (sentences (generateStreamingResponseWithRetry streamTexts rnd now options
      maxRetries h)). nonBlank s"
    using streamingAttempts_nonBlank[of streamTexts rnd now options maxRetries 0 h]
    by (auto simp add: generateStreamingResponseWithRetry_def Let_def fallback_nonBlank
        split: option.splits)
  then show ?thesis
    using gsr_nonBlank[of streamText rnd now options h] by (auto dest: nonBlank_nonempty)
qed

theorem emitted_sentences_nonblank_witness:
  "''Hi there.'' \<in> set (sentences (generateStreamingResponse greetingStream (Abs_random_value 0) 7
      \<lparr>transcript = ''hello'', roomName = None, maxTokens = None\<rparr> noHistory)) \<and>
   ''Hi there.'' \<noteq> [] \<and> nonBlank ''Hi there.''"
proof -
  have t: "trim (transcript \<lparr>transcript = ''hello'', roomName = None, maxTokens = None\<rparr>) \<noteq> []"
    by (simp add: trim_def isWhiteSpace_def)
  have m: "''Hi there.'' \<in> set (sentences (generateStreamingResponse greetingStream
      (Abs_random_value 0) 7 \<lparr>transcript = ''hello'', roomName = None, maxTokens = None\<rparr>
      noHistory))"
    by (simp add: greeting_sentences[OF t])
  have "\<forall>s\<in>set (sentences (generateStreamingResponse greetingStream (Abs_random_value 0) 7
      \<lparr>transcript = ''hello'', roomName = None, maxTokens = None\<rparr> noHistory)).
      s \<noteq> [] \<and> nonBlank s"
    using emitted_sentences_nonblank[of greetingStream "Abs_random_value 0" 7
        "\<lparr>transcript = ''hello'', roomName = None, maxTokens = None\<rparr>" noHistory
        brokenStream 2]
    by (rule conjunct1)
  from bspec[OF this m] show ?thesis
    by (rule conjI[OF m])
qed

subsection \<open>The extraction loop against the specification's segmentation\<close>

lemma spec_segments_space:
  "\<forall>c\<in>set w. isWhiteSpace c \<Longrightarrow> spec_segments pending (w @ t) = spec_segments (pending @ w) t"
proof (induction w arbitrary: pending)
  case Nil
  then show ?case by simp
next
  case (Cons c w)
  have "\<not> isTerminator c"
    using Cons.prems terminator_not_space[of c] by auto
  then show ?case
    using Cons.IH[of "pending @ [c]"] Cons.prems by simp
qed

lemma spec_segments_none:
  "fst (spec_segments pending t) = [] \<Longrightarrow> snd (spec_segments pending t) = pending @ t"
  by (induction pending t rule: spec_segments.induct) (auto split: if_splits)

lemma spec_segments_pending_space:
  "\<forall>c\<in>set w. isWhiteSpace c \<Longrightarrow>
   spec_segments (w @ pending) t =
     (fst (spec_segments pending t),
      if fst (spec_segments pending t) = [] then w @ snd (spec_segments pending t)
      else snd (spec_segments pending t))"
proof (induction t arbitrary: pending)
  case Nil
  then show ?case by simp
next
  case (Cons c cs)
  show ?case
  proof (cases "isTerminator c \<and> (case cs of [] \<Rightarrow> True | d # _ \<Rightarrow> isWhiteSpace d)")
    case True
    have "trim (w @ pending @ [c]) = trim (pending @ [c])"
      using Cons.prems by (rule trim_space_prefix)
    then show ?thesis
      using True by simp
  next
    case False
    have "spec_segments (w @ pending @ [c]) cs =
        (fst (spec_segments (pending @ [c]) cs),
         if fst (spec_segments (pending @ [c]) cs) = [] then w @ snd (spec_segments (pending @ [c]) cs)
         else snd (spec_segments (pending @ [c]) cs))"
      using Cons.IH[OF Cons.prems, of "pending @ [c]"] by simp
    then show ?thesis
      using False by auto
  qed
qed

lemma exec_none:
  "sentenceEnd_exec i s = None \<Longrightarrow> spec_segments pending s = ([], pending @ s)"
proof (induction s arbitrary: i pending)
  case Nil
  then show ?case by simp
next
  case (Cons c cs)
  then show ?case
    by (auto split: if_splits)
qed

lemma exec_some:
  "sentenceEnd_exec i s = Some (j, l) \<Longrightarrow>
   \<exists>pre c post. s = pre @ c # post \<and> j = i + length pre \<and>
     l = 1 + length (takeWhile isWhiteSpace post) \<and> isTerminator c \<and>
     spec_segments pending s =
       (trim (pending @ pre @ [c]) # fst (spec_segments [] post), snd (spec_segments [] post))"
proof (induction s arbitrary: i pending)
  case Nil
  then show ?case by simp
next
  case (Cons c cs)
  show ?case
  proof (cases "isTerminator c \<and> (case cs of [] \<Rightarrow> True | d # _ \<Rightarrow> isWhiteSpace d)")
    case True
    then have "j = i" "l = 1 + length (takeWhile isWhiteSpace cs)"
      using Cons.prems by simp_all
    then have "c # cs = [] @ c # cs \<and> j = i + length ([]::string) \<and>
        l = 1 + length (takeWhile isWhiteSpace cs) \<and> isTerminator c \<and>
        spec_segments pending (c # cs) =
          (trim (pending @ [] @ [c]) # fst (spec_segments [] cs), snd (spec_segments [] cs))"
      using True by simp
    then show ?thesis by blast
  next
    case False
    then have "sentenceEnd_exec (Suc i) cs = Some (j, l)"
      using Cons.prems by (auto split: if_splits)
    from Cons.IH[OF this, of "pending @ [c]"]
    obtain pre d post where p: "cs = pre @ d # post" "j = Suc i + length pre"
      "l = 1 + length (takeWhile isWhiteSpace post)" "isTerminator d"
      "spec_segments (pending @ [c]) cs =
         (trim ((pending @ [c]) @ pre @ [d]) # fst (spec_segments [] post), snd (spec_segments [] post))"
      by blast
    have "c # cs = (c # pre) @ d # post \<and> j = i + length (c # pre) \<and>
        l = 1 + length (takeWhile isWhiteSpace post) \<and> isTerminator d \<and>
        spec_segments pending (c # cs) =
          (trim (pending @ (c # pre) @ [d]) # fst (spec_segments [] post), snd (spec_segments [] post))"
      using p False by auto
    then show ?thesis by blast
  qed
qed

lemma extract_loop_spec:
  "i \<le> length b \<Longrightarrow>
   \<exists>w. (\<forall>c\<in>set w. isWhiteSpace c) \<and>
       fst (extract_loop b i acc) = acc @ fst (spec_segments [] (drop i b)) \<and>
       snd (spec_segments [] (drop i b)) = w @ snd (extract_loop b i acc)"
proof (induction b i acc rule: extract_loop.induct)
  case (1 buffer lastIndex found)
  show ?case
  proof (cases "sentenceEnd_exec lastIndex (drop lastIndex buffer)")
    case None
    have "extract_loop buffer lastIndex found = (found, drop lastIndex buffer)"
      by (simp add: extract_loop.simps[of buffer lastIndex found] None)
    moreover have "spec_segments [] (drop lastIndex buffer) = ([], drop lastIndex buffer)"
      using exec_none[OF None, of "[]"] by simp
    ultimately have "(\<forall>c\<in>set ([]::string). isWhiteSpace c) \<and>
       fst (extract_loop buffer lastIndex found) = found @ fst (spec_segments [] (drop lastIndex buffer)) \<and>
       snd (spec_segments [] (drop lastIndex buffer)) = [] @ snd (extract_loop buffer lastIndex found)"
      by simp
    then show ?thesis by blast
  next
    case (Some m)
    obtain index len where m: "m = (index, len)" by (cases m)
    from exec_some[of lastIndex "drop lastIndex buffer" index len "[]"] Some m
    obtain pre c post where p: "drop lastIndex buffer = pre @ c # post"
      "index = lastIndex + length pre" "len = 1 + length (takeWhile isWhiteSpace post)"
      "isTerminator c"
      "spec_segments [] (drop lastIndex buffer) =
         (trim (pre @ [c]) # fst (spec_segments [] post), snd (spec_segments [] post))"
      by auto
    let ?tw = "takeWhile isWhiteSpace post"
    let ?dw = "dropWhile isWhiteSpace post"
    have tw: "\<forall>x\<in>set ?tw. isWhiteSpace x"
      by (auto dest: set_takeWhileD)
    have tk: "take (length ?tw) post = ?tw"
      by (rule takeWhile_eq_take[symmetric])
    have "index + len - lastIndex = length pre + Suc (length ?tw)"
      using p(2,3) by simp
    then have sl: "slice buffer lastIndex (index + len) = (pre @ [c]) @ ?tw"
      by (simp add: slice_def p(1) tk)
    have tr: "trim (slice buffer lastIndex (index + len)) = trim (pre @ [c])"
      unfolding sl using tw by (rule trim_space_suffix)
    have "nonBlank (pre @ [c])"
      using terminator_not_space[OF p(4)] by (auto simp add: nonBlank_def)
    then have ne: "trim (pre @ [c]) \<noteq> []"
      by (rule nonBlank_trim)
    let ?acc = "found @ [trim (pre @ [c])]"
    have step: "extract_loop buffer lastIndex found = extract_loop buffer (index + len) ?acc"
      using ne by (simp add: extract_loop.simps[of buffer lastIndex found] Some m tr truthy_def)
    have dk: "drop (length ?tw) post = ?dw"
      by (rule dropWhile_eq_drop[symmetric])
    have "drop (index + len) buffer = drop (length pre + len) (drop lastIndex buffer)"
      using p(2) by (simp add: add.commute add.left_commute)
    then have dr: "drop (index + len) buffer = ?dw"
      by (simp add: p(1,3) dk)
    have "length (pre @ c # post) \<le> length buffer - lastIndex"
      using p(1) by (metis length_drop order_refl)
    then have le: "index + len \<le> length buffer"
      using p(2,3) "1.prems" length_takeWhile_le[of isWhiteSpace post] by simp
    have acc_eq: "(if truthy (trim (slice buffer lastIndex (index + len)))
             then found @ [trim (slice buffer lastIndex (index + len))] else found) = ?acc"
      using ne by (simp add: tr truthy_def)
    have "\<exists>w. (\<forall>c\<in>set w. isWhiteSpace c) \<and>
       fst (extract_loop buffer (index + len) ?acc) = ?acc @ fst (spec_segments [] (drop (index + len) buffer)) \<and>
       snd (spec_segments [] (drop (index + len) buffer)) = w @ snd (extract_loop buffer (index + len) ?acc)"
      using "1.IH"[OF Some m[symmetric] le] unfolding acc_eq .
    then obtain w where w: "\<forall>c\<in>set w. isWhiteSpace c"
      "fst (extract_loop buffer (index + len) ?acc) = ?acc @ fst (spec_segments [] ?dw)"
      "snd (spec_segments [] ?dw) = w @ snd (extract_loop buffer (index + len) ?acc)"
      unfolding dr by blast
    have "spec_segments [] post = spec_segments [] (?tw @ ?dw)"
      by simp
    also have "\<dots> = spec_segments ?tw ?dw"
      using spec_segments_space[OF tw, of "[]" ?dw] by simp
    also have "\<dots> = (fst (spec_segments [] ?dw),
        if fst (spec_segments [] ?dw) = [] then ?tw @ snd (spec_segments [] ?dw)
        else snd (spec_segments [] ?dw))"
      using spec_segments_pending_space[OF tw, of "[]" ?dw] by simp
    finally have post: "spec_segments [] post = (fst (spec_segments [] ?dw),
        if fst (spec_segments [] ?dw) = [] then ?tw @ snd (spec_segments [] ?dw)
        else snd (spec_segments [] ?dw))" .
    let ?w = "if fst (spec_segments [] ?dw) = [] then ?tw @ w else w"
    have "(\<forall>c\<in>set ?w. isWhiteSpace c) \<and>
       fst (extract_loop buffer lastIndex found) = found @ fst (spec_segments [] (drop lastIndex buffer)) \<and>
       snd (spec_segments [] (drop lastIndex buffer)) = ?w @ snd (extract_loop buffer lastIndex found)"
      using w tw by (auto simp add: step p(5) post)
    then show ?thesis by blast
  qed
qed

lemma stream_loop_spec:
  "\<forall>c\<in>set w. isWhiteSpace c \<Longrightarrow>
   snd (snd (stream_loop cs full buf emitted)) @
     (if truthy (trim (fst (snd (stream_loop cs full buf emitted))))
      then [trim (fst (snd (stream_loop cs full buf emitted)))] else []) =
   emitted @ spec_stream (w @ buf) cs"
proof (induction cs arbitrary: full buf emitted w)
  case Nil
  then show ?case
    by (simp add: truthy_def trim_space_prefix)
next
  case (Cons chunk rest)
  obtain extracted remaining where e: "extractCompleteSentences (buf @ chunk) = (extracted, remaining)"
    by (cases "extractCompleteSentences (buf @ chunk)")
  obtain w1 where w1: "\<forall>c\<in>set w1. isWhiteSpace c"
    "extracted = fst (spec_segments [] (buf @ chunk))"
    "snd (spec_segments [] (buf @ chunk)) = w1 @ remaining"
    using extract_loop_spec[of 0 "buf @ chunk" "[]"] e
    by (auto simp add: extractCompleteSentences_def)
  have "spec_segments [] (w @ buf @ chunk) = spec_segments w (buf @ chunk)"
    using spec_segments_space[OF Cons.prems, of "[]" "buf @ chunk"] by simp
  also have "\<dots> = (extracted,
      if extracted = [] then w @ snd (spec_segments [] (buf @ chunk))
      else snd (spec_segments [] (buf @ chunk)))"
    using spec_segments_pending_space[OF Cons.prems, of "[]" "buf @ chunk"] by (simp add: w1(2))
  finally have sp: "spec_segments [] (w @ buf @ chunk) = (extracted,
      if extracted = [] then w @ snd (spec_segments [] (buf @ chunk))
      else snd (spec_segments [] (buf @ chunk)))" .
  show ?case
  proof (cases "extracted = []")
    case True
    then have "snd (spec_segments [] (buf @ chunk)) = buf @ chunk"
      using spec_segments_none[of "[]" "buf @ chunk"] w1(2) by simp
    then show ?thesis
      using Cons.IH[OF Cons.prems, of "full @ chunk" "buf @ chunk" emitted] True
      by (simp add: e sp cong: if_cong)
  next
    case False
    then show ?thesis
      using Cons.IH[OF w1(1), of "full @ chunk" remaining "emitted @ extracted"]
      by (simp add: e sp w1(3) cong: if_cong)
  qed
qed

lemma gsr_stream_ends:
  assumes "trim (transcript options) \<noteq> []"
    and "ending (streamText (buildMessages (roomName options) (transcript options) h)) = StreamEnds"
  shows "sentences (generateStreamingResponse streamText rnd now options h) =
     spec_stream [] (chunks (streamText (buildMessages (roomName options) (transcript options) h)))"
proof -
  let ?r = "streamText (buildMessages (roomName options) (transcript options) h)"
  obtain full buf out where l: "stream_loop (chunks ?r) [] [] [] = (full, buf, out)"
    by (cases "stream_loop (chunks ?r) [] [] []")
  have "out @ (if truthy (trim buf) then [trim buf] else []) = spec_stream [] (chunks ?r)"
    using stream_loop_spec[of "[]" "chunks ?r" "[]" "[]" "[]"] l by (simp cong: if_cong)
  then show ?thesis
    using assms by (auto simp add: generateStreamingResponse_def Let_def l truthy_def)
qed

text \<open>
  Claim C3. For a transcript that is not blank and every sequence of chunks of a stream that
  ends, the strings the callback receives are, in order, the sentences of the specification's
  segmentation: for each arriving chunk, over the text not yet cut, each terminator followed
  by white space or by the end of the buffer closes the trimmed text from the last cut point
  through it; and when the stream has ended, the trimmed remainder, once, if it is not empty.
  The loop cuts behind the white space after a terminator and the specification behind the
  terminator itself, which changes no sentence, since every sentence is trimmed. In
  particular the chunks \<open>"Hi "\<close>, \<open>"there. How "\<close>, \<open>"are you?"\<close> give exactly the two calls
  \<open>"Hi there."\<close> and \<open>"How are you?"\<close>.
\<close>

theorem sentence_segmentation:
  assumes "trim (transcript options) \<noteq> []"
  shows "(ending (streamText (buildMessages (roomName options) (transcript options) h)) = StreamEnds \<longrightarrow>
          sentences (generateStreamingResponse streamText rnd now options h) =
            spec_stream [] (chunks (streamText (buildMessages (roomName options) (transcript options) h)))) \<and>
         sentences (generateStreamingResponse greetingStream rnd now options h) =
           [''Hi there.'', ''How are you?'']"
  using assms by (simp add: gsr_stream_ends greeting_sentences)

theorem sentence_segmentation_witness:
  "trim (transcript \<lparr>transcript = ''hello'', roomName = None, maxTokens = None\<rparr>) \<noteq> [] \<and>
   ending (greetingStream (buildMessages None ''hello'' noHistory)) = StreamEnds \<and>
   sentences (generateStreamingResponse greetingStream (Abs_random_value 0) 7
      \<lparr>transcript = ''hello'', roomName = None, maxTokens = None\<rparr> noHistory) =
     [''Hi there.'', ''How are you?''] \<and>
   spec_stream [] [''Hi '', ''there. How '', ''are you?''] = [''Hi there.'', ''How are you?'']"
proof -
  let ?options = "\<lparr>transcript = ''hello'', roomName = None, maxTokens = None\<rparr>"
  let ?run = "generateStreamingResponse greetingStream (Abs_random_value 0) 7 ?options noHistory"
  have t: "trim (transcript ?options) \<noteq> []"
    by (simp add: trim_def isWhiteSpace_def)
  have e: "ending (greetingStream msgs) = StreamEnds" for msgs
    by (simp add: greetingStream_def)
  have c: "chunks (greetingStream msgs) = [''Hi '', ''there. How '', ''are you?'']" for msgs
    by (simp add: greetingStream_def)
  note th = sentence_segmentation[OF t, of greetingStream noHistory "Abs_random_value 0" 7]
  have "sentences ?run =
      spec_stream [] (chunks (greetingStream (buildMessages (roomName ?options)
        (transcript ?options) noHistory)))"
    using th[THEN conjunct1] e by (rule mp)
  then have a: "sentences ?run = spec_stream [] [''Hi '', ''there. How '', ''are you?'']"
    by (simp only: c)
  have b: "sentences ?run = [''Hi there.'', ''How are you?'']"
    using th by (rule conjunct2)
  have s: "spec_stream [] [''Hi '', ''there. How '', ''are you?''] = [''Hi there.'', ''How are you?'']"
    using a[symmetric] b by (rule trans)
  show ?thesis
    by (intro conjI) (rule t, rule e, rule b, rule s)
qed

end
